theory Spec2Isabelle
  imports Main
begin

section \<open>The DOM as src/utils/dom.js sees it\<close>

text \<open>
  The functions of \<^verbatim>\<open>dom.js\<close> run against the live browser DOM. The embedding keeps the
  part of it that the code reads and writes:
  \<^item> an element is a node of a tree; it has an identity \<open>nid\<close> (JavaScript object identity:
    the code holds references to elements in arrays while it changes the tree), the
    \<open>tagName\<close> as the DOM reports it, the tokens of its \<open>class\<close> attribute, its other
    attributes, and what the browser would report for it as computed \<^verbatim>\<open>display\<close> and
    \<^verbatim>\<open>visibility\<close> (\<^verbatim>\<open>getComputedStyle\<close>) and as bounding rectangle
    (\<^verbatim>\<open>getBoundingClientRect\<close>);
  \<^item> only element nodes are kept (text and comment nodes play no role in the code);
  \<^item> a document has at most one element child, its \<open>documentElement\<close>, and it is in quirks
    mode or not (\<^verbatim>\<open>document.compatMode\<close>), which decides how class selectors compare;
  \<^item> a page is a store of documents addressed by handles; handle \<open>0\<close> is the global
    \<^verbatim>\<open>document\<close>, and \<open>contentWindow_document\<close> says what evaluating
    \<^verbatim>\<open>iframe.contentWindow.document\<close> gives for an iframe element of it: a document
    handle, or an exception (a cross-origin frame).
  An element reference is the identity of the element, resolved in the document at hand.
  An exception of the source is a value of type \<open>error\<close>; \<open>Thrown\<close> is a value thrown by a
  callback of the caller.
\<close>

datatype error = TypeError | SyntaxError | NotFoundError | SecurityError | Thrown string

type_synonym rect = "int \<times> int \<times> int \<times> int"

record props =
  nid :: nat
  tagName :: string
  classList :: "string list"
  attributes :: "(string \<times> string) list"
  display :: string
  visibility :: string
  boundingClientRect :: rect
  dragAndDrop :: bool

datatype node = Element (props: props) (childNodes: "node list")

record document =
  documentElement :: "node option"
  quirksMode :: bool

definition node_id :: "node \<Rightarrow> nat" where
  "node_id n = nid (props n)"

definition getAttribute :: "node \<Rightarrow> string \<Rightarrow> string option" where
  "getAttribute el name = map_of (attributes (props el)) name"

text \<open>\<^verbatim>\<open>String.prototype.toLowerCase\<close>, on the ASCII letters that tag names are made of.\<close>

definition toLowerCase_char :: "char \<Rightarrow> char" where
  "toLowerCase_char c =
     (case map_of (zip ''ABCDEFGHIJKLMNOPQRSTUVWXYZ'' ''abcdefghijklmnopqrstuvwxyz'') c of
        None \<Rightarrow> c
      | Some l \<Rightarrow> l)"

definition toLowerCase :: "string \<Rightarrow> string" where
  "toLowerCase s = map toLowerCase_char s"

subsection \<open>Document order and selectors\<close>

fun descendants :: "node \<Rightarrow> node list" where
  "descendants (Element p cs) = Element p cs # concat (map descendants cs)"

definition elements_of :: "document \<Rightarrow> node list" where
  "elements_of d = (case documentElement d of None \<Rightarrow> [] | Some root \<Rightarrow> descendants root)"

text \<open>
  A selector string is represented by what the browser's selector engine makes of it:
  it is rejected (\<open>Malformed\<close>, a \<^verbatim>\<open>SyntaxError\<close>), or it denotes a predicate on the
  elements of a document. The three selectors that the code itself writes are given
  below; the selectors of the caller's targets are arbitrary.
\<close>

datatype selector = Malformed | Matches "document \<Rightarrow> node \<Rightarrow> bool"

text \<open>
  The page: the documents by handle, what \<^verbatim>\<open>iframe.contentWindow.document\<close> gives for an
  iframe element of the top document, and what the selector engine makes of a selector
  string that the embedding does not read itself.
\<close>

record page =
  docs :: "nat \<Rightarrow> document"
  contentWindow_document :: "nat \<Rightarrow> error + nat"
  selectorEngine :: "string \<Rightarrow> selector"

definition querySelectorAll :: "document \<Rightarrow> selector \<Rightarrow> error + nat list" where
  "querySelectorAll d s =
     (case s of
        Malformed \<Rightarrow> Inl SyntaxError
      | Matches m \<Rightarrow> Inr (map node_id (filter (m d) (elements_of d))))"

definition querySelector :: "document \<Rightarrow> selector \<Rightarrow> error + nat option" where
  "querySelector d s =
     (case s of
        Malformed \<Rightarrow> Inl SyntaxError
      | Matches m \<Rightarrow> Inr (map_option node_id (find (m d) (elements_of d))))"

text \<open>The type selector \<^verbatim>\<open>iframe\<close> (type selectors match HTML elements case-insensitively).\<close>

definition type_selector :: "string \<Rightarrow> selector" where
  "type_selector name = Matches (\<lambda>d n. toLowerCase (tagName (props n)) = name)"

text \<open>
  The selector string \<^verbatim>\<open>"div." + cssClass\<close> of \<open>removeNodes\<close>. The source concatenates without
  escaping, so what the string means depends on \<open>cssClass\<close>:
  \<^item> when \<open>cssClass\<close> is a plain identifier, of the form \<^verbatim>\<open>-?[A-Za-z_][A-Za-z0-9_-]*\<close>, the string is the
    type selector \<^verbatim>\<open>div\<close> with the class selector of that name: it matches a \<^verbatim>\<open>div\<close> element that
    has the class among its class tokens, compared exactly, and ASCII case-insensitively in
    a document in quirks mode;
  \<^item> when \<open>cssClass\<close> is empty or begins with a digit, the string is no selector: a
    \<^verbatim>\<open>SyntaxError\<close>;
  \<^item> any other string (escapes, characters outside ASCII, a leading double hyphen, blanks,
    combinators, further selectors) is left to the selector engine of the page, which
    rejects it or reads some selector in it.
\<close>

definition ident_start :: "char \<Rightarrow> bool" where
  "ident_start c \<longleftrightarrow> c \<in> set ''abcdefghijklmnopqrstuvwxyzABCDEFGHIJKLMNOPQRSTUVWXYZ_''"

definition ident_char :: "char \<Rightarrow> bool" where
  "ident_char c \<longleftrightarrow> ident_start c \<or> c \<in> set ''0123456789-''"

definition is_plain_identifier :: "string \<Rightarrow> bool" where
  "is_plain_identifier s =
     (case s of
        [] \<Rightarrow> False
      | c # cs \<Rightarrow>
          if c = CHR ''-''
          then (case cs of [] \<Rightarrow> False | c2 # cs2 \<Rightarrow> ident_start c2 \<and> list_all ident_char cs2)
          else ident_start c \<and> list_all ident_char cs)"

definition begins_with_digit :: "string \<Rightarrow> bool" where
  "begins_with_digit s = (case s of [] \<Rightarrow> False | c # cs \<Rightarrow> c \<in> set ''0123456789'')"

definition is_div_class :: "bool \<Rightarrow> string \<Rightarrow> props \<Rightarrow> bool" where
  "is_div_class quirks cname p \<longleftrightarrow>
     toLowerCase (tagName p) = ''div'' \<and>
     (if quirks then toLowerCase cname \<in> set (map toLowerCase (classList p))
      else cname \<in> set (classList p))"

definition div_class_selector :: "(string \<Rightarrow> selector) \<Rightarrow> string \<Rightarrow> selector" where
  "div_class_selector engine cssClass =
     (if is_plain_identifier cssClass
      then Matches (\<lambda>d n. is_div_class (quirksMode d) cssClass (props n))
      else if cssClass = [] \<or> begins_with_digit cssClass then Malformed
      else engine (''div.'' @ cssClass))"

subsection \<open>Parents\<close>

text \<open>
  \<open>chain_in i n\<close> looks the element with identity \<open>i\<close> up in the subtree \<open>n\<close> (in document
  order) and returns it followed by its parent, its grandparent, and so on up to \<open>n\<close>.
  A reference to an element of a document is resolved to this list; the \<^verbatim>\<open>parentNode\<close>
  of its head is its tail, and the empty list stands for the document node, which is
  the \<^verbatim>\<open>parentNode\<close> of the \<open>documentElement\<close>.
\<close>

fun chain_in :: "nat \<Rightarrow> node \<Rightarrow> node list option"
  and chain_in_list :: "nat \<Rightarrow> node list \<Rightarrow> node list option" where
  "chain_in i (Element p cs) =
     (if nid p = i then Some [Element p cs]
      else (case chain_in_list i cs of
              None \<Rightarrow> None
            | Some ch \<Rightarrow> Some (ch @ [Element p cs])))"
| "chain_in_list i [] = None"
| "chain_in_list i (c # cs) =
     (case chain_in i c of
        Some ch \<Rightarrow> Some ch
      | None \<Rightarrow> chain_in_list i cs)"

definition ancestor_chain :: "document \<Rightarrow> nat \<Rightarrow> node list option" where
  "ancestor_chain d i =
     (case documentElement d of None \<Rightarrow> None | Some root \<Rightarrow> chain_in i root)"

text \<open>
  \<^verbatim>\<open>element.parentElement\<close>: the parent when it is an element; \<^verbatim>\<open>null\<close> for the root element,
  whose parent is the document, and for a reference that does not resolve.
\<close>

definition parentElement :: "document \<Rightarrow> nat \<Rightarrow> node option" where
  "parentElement d i =
     (case ancestor_chain d i of
        Some (el # parent # up) \<Rightarrow> Some parent
      | _ \<Rightarrow> None)"

section \<open>isVisible\<close>

text \<open>
  \<open>isVisibleRec\<close> takes the element followed by its ancestors; the empty list is the
  document node (\<^verbatim>\<open>el.nodeType === Node.DOCUMENT_NODE\<close>). A reference that does not
  resolve in the document has no \<^verbatim>\<open>parentNode\<close>, and the source's recursion on
  \<^verbatim>\<open>null\<close> is a \<^verbatim>\<open>TypeError\<close>.
\<close>

fun isVisibleRec :: "node list \<Rightarrow> bool" where
  "isVisibleRec [] = True"
| "isVisibleRec (el # parentNode) =
     (let computedStyle = props el;
          display_value = display computedStyle;
          visibility_value = visibility computedStyle;
          hidden = getAttribute el ''hidden'';
          ariaHidden = getAttribute el ''aria-hidden''
      in if display_value = ''none'' \<or> visibility_value = ''hidden'' \<or>
            hidden \<noteq> None \<or> ariaHidden = Some ''true''
         then False
         else isVisibleRec parentNode)"

definition isVisible :: "document \<Rightarrow> nat \<Rightarrow> error + bool" where
  "isVisible d element =
     (case ancestor_chain d element of
        None \<Rightarrow> Inl TypeError
      | Some ch \<Rightarrow> Inr (isVisibleRec ch))"

text \<open>The four signals of the specification, on one node.\<close>

definition hidden_signal :: "node \<Rightarrow> bool" where
  "hidden_signal n \<longleftrightarrow>
     display (props n) = ''none'' \<or> visibility (props n) = ''hidden'' \<or>
     getAttribute n ''hidden'' \<noteq> None \<or> getAttribute n ''aria-hidden'' = Some ''true''"

section \<open>hasParentWithName\<close>

definition hasParentWithName :: "document \<Rightarrow> nat \<Rightarrow> string list \<Rightarrow> error + bool" where
  "hasParentWithName d element tagNames =
     (case parentElement d element of
        None \<Rightarrow> Inl TypeError
      | Some parent \<Rightarrow>
          (let parentTagName = toLowerCase (tagName (props parent))
           in if parentTagName \<noteq> [] then Inr (list_ex (\<lambda>name. parentTagName = name) tagNames)
              else Inr False))"

section \<open>getAllDocuments\<close>

fun filter_truthy :: "'a option list \<Rightarrow> 'a list" where
  "filter_truthy [] = []"
| "filter_truthy (None # xs) = filter_truthy xs"
| "filter_truthy (Some x # xs) = x # filter_truthy xs"

definition getAllDocuments :: "page \<Rightarrow> error + nat list" where
  "getAllDocuments pg =
     (case querySelectorAll (docs pg 0) (type_selector ''iframe'') of
        Inl e \<Rightarrow> Inl e
      | Inr iframes \<Rightarrow>
          Inr (0 # filter_truthy
                (map (\<lambda>iframe. case contentWindow_document pg iframe of
                                  Inl e \<Rightarrow> None
                                | Inr doc \<Rightarrow> Some doc) iframes)))"

section \<open>Changing the tree\<close>

text \<open>
  \<^verbatim>\<open>document.body\<close> is, by the DOM standard, the first child of the \<^verbatim>\<open>html\<close> root element that
  is a \<^verbatim>\<open>body\<close> or a \<^verbatim>\<open>frameset\<close> element, and \<^verbatim>\<open>null\<close> when there is none.
\<close>

definition is_body_element :: "node \<Rightarrow> bool" where
  "is_body_element n \<longleftrightarrow>
     toLowerCase (tagName (props n)) = ''body'' \<or> toLowerCase (tagName (props n)) = ''frameset''"

definition body :: "document \<Rightarrow> node option" where
  "body d =
     (case documentElement d of
        None \<Rightarrow> None
      | Some root \<Rightarrow>
          if toLowerCase (tagName (props root)) = ''html''
          then find is_body_element (childNodes root)
          else None)"

fun map_first :: "('a \<Rightarrow> bool) \<Rightarrow> ('a \<Rightarrow> 'a) \<Rightarrow> 'a list \<Rightarrow> 'a list" where
  "map_first P f [] = []"
| "map_first P f (x # xs) = (if P x then f x # xs else x # map_first P f xs)"

text \<open>\<open>update_body f d\<close> replaces the children of the body of \<open>d\<close> by \<open>f\<close> of them.\<close>

definition update_body :: "(node list \<Rightarrow> node list) \<Rightarrow> document \<Rightarrow> document" where
  "update_body f d =
     (case documentElement d of
        None \<Rightarrow> d
      | Some root \<Rightarrow>
          d\<lparr>documentElement :=
              Some (Element (props root)
                     (map_first is_body_element
                        (\<lambda>b. Element (props b) (f (childNodes b))) (childNodes root)))\<rparr>)"

text \<open>\<^verbatim>\<open>doc.body.appendChild(node)\<close>; a \<^verbatim>\<open>TypeError\<close> when \<^verbatim>\<open>doc.body\<close> is \<^verbatim>\<open>null\<close>.\<close>

definition body_appendChild :: "document \<Rightarrow> node \<Rightarrow> error + document" where
  "body_appendChild d n =
     (case body d of
        None \<Rightarrow> Inl TypeError
      | Some b \<Rightarrow> Inr (update_body (\<lambda>cs. cs @ [n]) d))"

fun remove_child :: "nat \<Rightarrow> node list \<Rightarrow> node list" where
  "remove_child i [] = []"
| "remove_child i (c # cs) = (if node_id c = i then cs else c # remove_child i cs)"

text \<open>
  \<^verbatim>\<open>doc.body.removeChild(element)\<close>: a \<^verbatim>\<open>TypeError\<close> when \<^verbatim>\<open>doc.body\<close> is \<^verbatim>\<open>null\<close>, a
  \<^verbatim>\<open>NotFoundError\<close> when the element is not a child of the body.
\<close>

definition body_removeChild :: "document \<Rightarrow> nat \<Rightarrow> error + document" where
  "body_removeChild d element =
     (case body d of
        None \<Rightarrow> Inl TypeError
      | Some b \<Rightarrow>
          if element \<in> set (map node_id (childNodes b))
          then Inr (update_body (remove_child element) d)
          else Inl NotFoundError)"

text \<open>A new object is distinct from every node of the document: its identity is fresh.\<close>

definition fresh_id :: "document \<Rightarrow> nat" where
  "fresh_id d = Suc (foldr max (map node_id (elements_of d)) 0)"

definition toUpperCase_char :: "char \<Rightarrow> char" where
  "toUpperCase_char c =
     (case map_of (zip ''abcdefghijklmnopqrstuvwxyz'' ''ABCDEFGHIJKLMNOPQRSTUVWXYZ'') c of
        None \<Rightarrow> c
      | Some u \<Rightarrow> u)"

definition createElement :: "document \<Rightarrow> string \<Rightarrow> node" where
  "createElement d localName =
     Element \<lparr>nid = fresh_id d, tagName = map toUpperCase_char localName, classList = [],
              attributes = [], display = ''inline'', visibility = ''visible'',
              boundingClientRect = (0, 0, 0, 0), dragAndDrop = False\<rparr> []"

definition getBoundingClientRect :: "document \<Rightarrow> nat \<Rightarrow> rect" where
  "getBoundingClientRect d element =
     (case ancestor_chain d element of
        Some (el # up) \<Rightarrow> boundingClientRect (props el)
      | _ \<Rightarrow> (0, 0, 0, 0))"

section \<open>Control flow: exceptions and forEach\<close>

text \<open>
  A statement of the source that changes the DOM either completes or throws; in both
  cases the DOM is left as it is at that moment, so both outcomes carry the state.
\<close>

datatype ('a, 's) outcome = Throws error 's | Returns 'a 's

fun state_of :: "('a, 's) outcome \<Rightarrow> 's" where
  "state_of (Throws e s) = s"
| "state_of (Returns v s) = s"

fun forEach :: "('a \<Rightarrow> 's \<Rightarrow> (unit, 's) outcome) \<Rightarrow> 'a list \<Rightarrow> 's \<Rightarrow> (unit, 's) outcome" where
  "forEach callback [] s = Returns () s"
| "forEach callback (x # xs) s =
     (case callback x s of
        Throws e s' \<Rightarrow> Throws e s'
      | Returns u s' \<Rightarrow> forEach callback xs s')"

text \<open>\<^verbatim>\<open>Array.prototype.filter\<close> with a callback that may throw.\<close>

fun Array_filter :: "('a \<Rightarrow> error + bool) \<Rightarrow> 'a list \<Rightarrow> error + 'a list" where
  "Array_filter f [] = Inr []"
| "Array_filter f (x # xs) =
     (case f x of
        Inl e \<Rightarrow> Inl e
      | Inr keep \<Rightarrow>
          (case Array_filter f xs of
             Inl e \<Rightarrow> Inl e
           | Inr ys \<Rightarrow> Inr (if keep then x # ys else ys)))"

section \<open>addNodes\<close>

text \<open>
  A target descriptor: its selector and its optional filter. Callbacks receive an element
  reference; what they compute may depend on the whole document, so they take the
  document and the element's identity. A callback either returns or throws; callbacks
  that change the DOM themselves are outside the model. \<open>getInfo\<close> and \<open>evalInfo\<close> may be
  \<^verbatim>\<open>undefined\<close>; \<open>evalInfo\<close>, which updates the info object in place, returns the updated info.
\<close>

record target =
  selector :: selector
  filter_fn :: "(document \<Rightarrow> nat \<Rightarrow> error + bool) option"

record 'i params =
  targetList :: "target list"
  cssClass :: string
  getInfo :: "(document \<Rightarrow> nat \<Rightarrow> target \<Rightarrow> error + 'i) option"
  evalInfo :: "('i \<Rightarrow> target \<Rightarrow> error + 'i) option"
  dndFlag :: bool

text \<open>
  Modelled from the spec: \<^verbatim>\<open>createOverlay\<close> (module \<^verbatim>\<open>./overlay\<close>) is not among the sources. By
  the specification an overlay is a positioned visual element created per target element,
  aligned to the element's rectangle and tagged with the marker class; \<^verbatim>\<open>removeNodes\<close> selects
  overlays as \<^verbatim>\<open>div\<close> elements of that class, and \<^verbatim>\<open>addNodes\<close> takes the label node as the
  overlay's first child. The label is a \<^verbatim>\<open>div\<close> without a class. The new nodes have fresh
  identities.
\<close>

definition createOverlay :: "target \<Rightarrow> rect \<Rightarrow> string \<Rightarrow> document \<Rightarrow> node" where
  "createOverlay tgt r cname doc =
     Element \<lparr>nid = fresh_id doc, tagName = ''DIV'', classList = [cname], attributes = [],
              display = ''block'', visibility = ''visible'', boundingClientRect = r,
              dragAndDrop = False\<rparr>
       [Element \<lparr>nid = Suc (fresh_id doc), tagName = ''DIV'', classList = [], attributes = [],
                 display = ''block'', visibility = ''visible'', boundingClientRect = r,
                 dragAndDrop = False\<rparr> []]"

text \<open>
  Modelled from the spec: \<^verbatim>\<open>addDragAndDrop\<close> (module \<^verbatim>\<open>./overlay\<close>) is not among the sources; it
  attaches drag-and-drop behaviour to the overlay, here a flag of the node. \<^verbatim>\<open>formatInfo\<close>
  (module \<^verbatim>\<open>./info\<close>), which formats the info into the display text, is a parameter of
  \<open>addNodes\<close> below.
\<close>

definition addDragAndDrop :: "node \<Rightarrow> node" where
  "addDragAndDrop n = Element ((props n)\<lparr>dragAndDrop := True\<rparr>) (childNodes n)"

definition setAttribute :: "node \<Rightarrow> string \<Rightarrow> string \<Rightarrow> node" where
  "setAttribute n name v =
     Element ((props n)\<lparr>attributes := (name, v) # filter (\<lambda>kv. fst kv \<noteq> name) (attributes (props n))\<rparr>)
       (childNodes n)"

text \<open>
  \<^verbatim>\<open>const labelNode = overlayNode.firstChild; labelNode.title = text\<close>: a \<^verbatim>\<open>TypeError\<close> when
  the overlay has no child.
\<close>

definition set_label_title :: "node \<Rightarrow> string \<Rightarrow> error + node" where
  "set_label_title overlayNode text =
     (case childNodes overlayNode of
        [] \<Rightarrow> Inl TypeError
      | labelNode # rest \<Rightarrow>
          Inr (Element (props overlayNode) (setAttribute labelNode ''title'' text # rest)))"

definition stylesheet_href :: string where
  "stylesheet_href = ''https://accessibility-bookmarklets.org/build/styles.css''"

text \<open>The attribute selector \<^verbatim>\<open>[href="https://accessibility-bookmarklets.org/build/styles.css"]\<close>.\<close>

definition href_selector :: selector where
  "href_selector = Matches (\<lambda>d n. getAttribute n ''href'' = Some stylesheet_href)"

text \<open>
  Lines 109 to 117: the stylesheet link. The user-agent style sheet gives \<^verbatim>\<open>link\<close> elements
  \<^verbatim>\<open>display: none\<close>.
\<close>

definition add_stylesheet :: "document \<Rightarrow> error + document" where
  "add_stylesheet doc =
     (case querySelector doc href_selector of
        Inl e \<Rightarrow> Inl e
      | Inr (Some found) \<Rightarrow> Inr doc
      | Inr None \<Rightarrow>
          (let link = createElement doc ''link'';
               link = setAttribute link ''rel'' ''stylesheet'';
               link = setAttribute link ''type'' ''text/css'';
               link = setAttribute link ''href'' stylesheet_href;
               link = Element ((props link)\<lparr>display := ''none''\<rparr>) (childNodes link)
           in case documentElement doc of
                None \<Rightarrow> Inr doc
              | Some firstElementChild \<Rightarrow>
                  Inr (doc\<lparr>documentElement :=
                        Some (Element (props firstElementChild)
                               (link # childNodes firstElementChild))\<rparr>)))"

text \<open>Lines 125 to 147: the callback of \<^verbatim>\<open>elements.forEach\<close>; the state is the counter and the document.\<close>

definition addNodes_element ::
  "('i \<Rightarrow> string) \<Rightarrow> 'i params \<Rightarrow> target \<Rightarrow> nat \<Rightarrow> nat \<times> document \<Rightarrow> (unit, nat \<times> document) outcome" where
  "addNodes_element formatInfo ps tgt element = (\<lambda>(counter, doc).
     case isVisible doc element of
       Inl e \<Rightarrow> Throws e (counter, doc)
     | Inr False \<Rightarrow> Returns () (counter, doc)
     | Inr True \<Rightarrow>
         (case getInfo ps of
            None \<Rightarrow> Throws TypeError (counter, doc)
          | Some get \<Rightarrow>
              (case get doc element tgt of
                 Inl e \<Rightarrow> Throws e (counter, doc)
               | Inr info0 \<Rightarrow>
                   (case (case evalInfo ps of None \<Rightarrow> Inr info0 | Some ev \<Rightarrow> ev info0 tgt) of
                      Inl e \<Rightarrow> Throws e (counter, doc)
                    | Inr info \<Rightarrow>
                        (let overlayNode =
                               createOverlay tgt (getBoundingClientRect doc element) (cssClass ps) doc;
                             overlayNode =
                               (if dndFlag ps then addDragAndDrop overlayNode else overlayNode)
                         in case set_label_title overlayNode (formatInfo info) of
                              Inl e \<Rightarrow> Throws e (counter, doc)
                            | Inr overlayNode' \<Rightarrow>
                                (case body_appendChild doc overlayNode' of
                                   Inl e \<Rightarrow> Throws e (counter, doc)
                                 | Inr doc' \<Rightarrow> Returns () (counter + 1, doc')))))))"

text \<open>Lines 119 to 148: the callback of \<^verbatim>\<open>targetList.forEach\<close>.\<close>

definition addNodes_target ::
  "('i \<Rightarrow> string) \<Rightarrow> 'i params \<Rightarrow> target \<Rightarrow> nat \<times> document \<Rightarrow> (unit, nat \<times> document) outcome" where
  "addNodes_target formatInfo ps tgt = (\<lambda>(counter, doc).
     case querySelectorAll doc (selector tgt) of
       Inl e \<Rightarrow> Throws e (counter, doc)
     | Inr elements \<Rightarrow>
         (case (case filter_fn tgt of
                  None \<Rightarrow> Inr elements
                | Some f \<Rightarrow> Array_filter (f doc) elements) of
            Inl e \<Rightarrow> Throws e (counter, doc)
          | Inr elements' \<Rightarrow>
              forEach (addNodes_element formatInfo ps tgt) elements' (counter, doc)))"

text \<open>Lines 108 to 149: the callback of \<^verbatim>\<open>getAllDocuments().forEach\<close>; the state is the counter and the page.\<close>

definition addNodes_doc ::
  "('i \<Rightarrow> string) \<Rightarrow> 'i params \<Rightarrow> nat \<Rightarrow> nat \<times> page \<Rightarrow> (unit, nat \<times> page) outcome" where
  "addNodes_doc formatInfo ps h = (\<lambda>(counter, pg).
     case add_stylesheet (docs pg h) of
       Inl e \<Rightarrow> Throws e (counter, pg)
     | Inr doc \<Rightarrow>
         (case forEach (addNodes_target formatInfo ps) (targetList ps) (counter, doc) of
            Throws e (counter', doc') \<Rightarrow> Throws e (counter', pg\<lparr>docs := (docs pg)(h := doc')\<rparr>)
          | Returns u (counter', doc') \<Rightarrow> Returns () (counter', pg\<lparr>docs := (docs pg)(h := doc')\<rparr>)))"

definition addNodes :: "('i \<Rightarrow> string) \<Rightarrow> 'i params \<Rightarrow> page \<Rightarrow> (nat, page) outcome" where
  "addNodes formatInfo ps pg =
     (case getAllDocuments pg of
        Inl e \<Rightarrow> Throws e pg
      | Inr ds \<Rightarrow>
          (case forEach (addNodes_doc formatInfo ps) ds (0, pg) of
             Throws e (counter, pg') \<Rightarrow> Throws e pg'
           | Returns u (counter, pg') \<Rightarrow> Returns counter pg'))"

section \<open>removeNodes\<close>

definition removeNodes_element :: "nat \<Rightarrow> document \<Rightarrow> (unit, document) outcome" where
  "removeNodes_element element doc =
     (case body_removeChild doc element of
        Inl e \<Rightarrow> Throws e doc
      | Inr doc' \<Rightarrow> Returns () doc')"

definition removeNodes_doc :: "string \<Rightarrow> nat \<Rightarrow> page \<Rightarrow> (unit, page) outcome" where
  "removeNodes_doc cname h pg =
     (case querySelectorAll (docs pg h) (div_class_selector (selectorEngine pg) cname) of
        Inl e \<Rightarrow> Throws e pg
      | Inr elements \<Rightarrow>
          (case forEach removeNodes_element elements (docs pg h) of
             Throws e doc' \<Rightarrow> Throws e (pg\<lparr>docs := (docs pg)(h := doc')\<rparr>)
           | Returns u doc' \<Rightarrow> Returns () (pg\<lparr>docs := (docs pg)(h := doc')\<rparr>)))"

definition removeNodes :: "string \<Rightarrow> page \<Rightarrow> (unit, page) outcome" where
  "removeNodes cname pg =
     (case getAllDocuments pg of
        Inl e \<Rightarrow> Throws e pg
      | Inr ds \<Rightarrow> forEach (removeNodes_doc cname) ds pg)"

section \<open>Notions of the specification\<close>

text \<open>The children of the body of a document; none when the document has no body.\<close>

definition body_children :: "document \<Rightarrow> node list" where
  "body_children d = (case body d of None \<Rightarrow> [] | Some b \<Rightarrow> childNodes b)"

text \<open>The reachable documents of a page.\<close>

definition reachable :: "page \<Rightarrow> nat list" where
  "reachable pg = (case getAllDocuments pg of Inl e \<Rightarrow> [] | Inr ds \<Rightarrow> ds)"

text \<open>
  No reachable document has a \<^verbatim>\<open>div\<close> element of class \<open>C\<close> (none that the selector \<^verbatim>\<open>div.C\<close>
  matches).
\<close>

definition no_marked :: "string \<Rightarrow> page \<Rightarrow> bool" where
  "no_marked cname pg \<longleftrightarrow>
     (\<forall>h\<in>set (reachable pg).
        filter (\<lambda>n. is_div_class (quirksMode (docs pg h)) cname (props n))
          (elements_of (docs pg h)) = [])"

text \<open>The elements of a document in document order, each without its children.\<close>

definition props_of :: "document \<Rightarrow> props list" where
  "props_of d = map props (elements_of d)"

text \<open>The document with the nodes \<open>ovs\<close> appended to its body.\<close>

definition add_overlays :: "document \<Rightarrow> node list \<Rightarrow> document" where
  "add_overlays d ovs = update_body (\<lambda>cs. cs @ ovs) d"

text \<open>
  What \<open>addNodes\<close> appends for one element: a \<^verbatim>\<open>div\<close> of the marker class with identity \<open>k\<close>,
  whose only child is the label, a \<^verbatim>\<open>div\<close> with the fresh identity after \<open>k\<close>, no class, and a
  title.
\<close>

definition overlay_shape :: "string \<Rightarrow> nat \<Rightarrow> node \<Rightarrow> bool" where
  "overlay_shape cname k ov \<longleftrightarrow>
     (\<exists>p q. ov = Element p [Element q []] \<and>
        nid p = k \<and> nid q = Suc k \<and> tagName p = ''DIV'' \<and> classList p = [cname] \<and>
        attributes p = [] \<and> tagName q = ''DIV'' \<and> classList q = [] \<and>
        map fst (attributes q) = [''title''])"

text \<open>
  \<open>ovs\<close> are overlays created one after the other, each with an identity that is fresh for
  the document that the earlier ones were appended to.
\<close>

fun overlays_from :: "string \<Rightarrow> document \<Rightarrow> node list \<Rightarrow> bool" where
  "overlays_from cname d [] = True"
| "overlays_from cname d (ov # ovs) =
     (overlay_shape cname (fresh_id d) ov \<and> overlays_from cname (add_overlays d [ov]) ovs)"

text \<open>
  The number of elements of the document \<open>d\<close> that match the selector of the target, pass
  its filter when it has one, and are visible.
\<close>

definition counted :: "document \<Rightarrow> target \<Rightarrow> nat" where
  "counted d t =
     (case selector t of
        Malformed \<Rightarrow> 0
      | Matches m \<Rightarrow>
          length (filter (\<lambda>n. m d n \<and>
                    (case filter_fn t of None \<Rightarrow> True | Some f \<Rightarrow> f d (node_id n) = Inr True) \<and>
                    isVisible d (node_id n) = Inr True) (elements_of d)))"



text \<open>The number of children of the bodies of the documents with handles in \<open>H\<close>.\<close>

definition overlay_total :: "nat set \<Rightarrow> page \<Rightarrow> nat" where
  "overlay_total H pg = (\<Sum>h\<in>H. length (body_children (docs pg h)))"

text \<open>An element with the fixed stylesheet href, and the number of them in a document.\<close>

definition has_stylesheet_href :: "props \<Rightarrow> bool" where
  "has_stylesheet_href p \<longleftrightarrow> map_of (attributes p) ''href'' = Some stylesheet_href"

text \<open>The link element that the stylesheet step builds.\<close>

definition stylesheet_link :: "document \<Rightarrow> node" where
  "stylesheet_link d =
     Element \<lparr>nid = fresh_id d, tagName = ''LINK'', classList = [],
              attributes = [(''href'', stylesheet_href), (''type'', ''text/css''), (''rel'', ''stylesheet'')],
              display = ''none'', visibility = ''visible'', boundingClientRect = (0, 0, 0, 0),
              dragAndDrop = False\<rparr> []"

definition href_count :: "document \<Rightarrow> nat" where
  "href_count d = length (filter has_stylesheet_href (props_of d))"

text \<open>
  The number of elements with the stylesheet href once the stylesheet step has run on a
  document: one when there was none and the document has a root element.
\<close>

definition expected_links :: "document \<Rightarrow> nat" where
  "expected_links d =
     (if href_count d = 0 \<and> documentElement d \<noteq> None then 1 else href_count d)"




section \<open>Example pages\<close>

text \<open>
  A page with a same-origin and a cross-origin iframe. The main document has a paragraph,
  a paragraph hidden by the \<^verbatim>\<open>aria-hidden\<close> attribute of its parent, and the two iframes.
  The selector strings of the examples are read by the embedding itself, so the engine of
  the example pages is never asked; it is one that rejects every string.
\<close>

definition visible_element ::
  "nat \<Rightarrow> string \<Rightarrow> string list \<Rightarrow> (string \<times> string) list \<Rightarrow> node list \<Rightarrow> node" where
  "visible_element i tag classes attrs children =
     Element \<lparr>nid = i, tagName = tag, classList = classes, attributes = attrs,
              display = ''block'', visibility = ''visible'', boundingClientRect = (0, 0, 0, 0),
              dragAndDrop = False\<rparr> children"

definition main_doc :: document where
  "main_doc = \<lparr>documentElement = Some
     (visible_element 1 ''HTML'' [] []
        [visible_element 2 ''HEAD'' [] [] [],
         visible_element 3 ''BODY'' [] []
           [visible_element 4 ''P'' [] [] [],
            visible_element 5 ''DIV'' [] [(''aria-hidden'', ''true'')]
              [visible_element 6 ''P'' [] [] []],
            visible_element 7 ''IFRAME'' [] [] [],
            visible_element 8 ''IFRAME'' [] [] []]]),
     quirksMode = False\<rparr>"

definition frame_doc :: document where
  "frame_doc = \<lparr>documentElement = Some
     (visible_element 1 ''HTML'' [] []
        [visible_element 2 ''BODY'' [] [] [visible_element 3 ''P'' [] [] []]]),
     quirksMode = False\<rparr>"

definition empty_doc :: document where
  "empty_doc = \<lparr>documentElement = None, quirksMode = False\<rparr>"

definition example_page :: page where
  "example_page =
     \<lparr>docs = (\<lambda>h. if h = 0 then main_doc else if h = 1 then frame_doc else empty_doc),
      contentWindow_document = (\<lambda>i. if i = 7 then Inr 1 else Inl SecurityError),
      selectorEngine = (\<lambda>s. Malformed)\<rparr>"

definition example_params :: "string params" where
  "example_params =
     \<lparr>targetList = [\<lparr>selector = type_selector ''p'', filter_fn = None\<rparr>],
      cssClass = ''mark'', getInfo = Some (\<lambda>d e t. Inr ''info''), evalInfo = None,
      dndFlag = False\<rparr>"

text \<open>A page whose documents have no root element.\<close>

definition blank_page :: page where
  "blank_page =
     \<lparr>docs = (\<lambda>h. empty_doc), contentWindow_document = (\<lambda>i. Inl SecurityError),
      selectorEngine = (\<lambda>s. Malformed)\<rparr>"

text \<open>A document with a marked \<^verbatim>\<open>div\<close> nested in a \<^verbatim>\<open>section\<close>, between two that are children of the body.\<close>

definition nested_doc :: document where
  "nested_doc = \<lparr>documentElement = Some
     (visible_element 1 ''HTML'' [] []
        [visible_element 2 ''BODY'' [] []
           [visible_element 10 ''DIV'' [''mark''] [] [],
            visible_element 11 ''SECTION'' [] [] [visible_element 12 ''DIV'' [''mark''] [] []],
            visible_element 13 ''DIV'' [''mark''] [] []]]),
     quirksMode = False\<rparr>"

definition nested_page :: page where
  "nested_page =
     \<lparr>docs = (\<lambda>h. nested_doc), contentWindow_document = (\<lambda>i. Inl SecurityError),
      selectorEngine = (\<lambda>s. Malformed)\<rparr>"

text \<open>Parameters whose \<open>getInfo\<close> throws on the paragraph of the iframe document.\<close>

definition throwing_params :: "string params" where
  "throwing_params =
     \<lparr>targetList = [\<lparr>selector = type_selector ''p'', filter_fn = None\<rparr>],
      cssClass = ''mark'',
      getInfo = Some (\<lambda>d e t. if e = 3 then Inl (Thrown ''getInfo failed'') else Inr ''info''),
      evalInfo = None, dndFlag = False\<rparr>"


lemmas example_defs =
  visible_element_def main_doc_def frame_doc_def empty_doc_def example_page_def example_params_def
  blank_page_def nested_doc_def nested_page_def throwing_params_def

lemmas dom_defs =
  node_id_def getAttribute_def toLowerCase_def toLowerCase_char_def elements_of_def
  querySelectorAll_def querySelector_def type_selector_def div_class_selector_def
  is_plain_identifier_def ident_start_def ident_char_def begins_with_digit_def is_div_class_def
  ancestor_chain_def parentElement_def is_body_element_def body_def

section \<open>Properties\<close>

subsection \<open>isVisible\<close>

lemma isVisibleRec_iff: "isVisibleRec ch \<longleftrightarrow> (\<forall>a\<in>set ch. \<not> hidden_signal a)"
  by (induction ch) (auto simp: hidden_signal_def Let_def)

text \<open>
  The list that an element reference resolves to starts with the element, ends with the
  root of the subtree searched, and every entry is a child of the next one.
\<close>

lemma chain_in_shape:
  "chain_in i n = Some ch \<Longrightarrow> ch \<noteq> [] \<and> node_id (hd ch) = i \<and> last ch = n"
  "chain_in_list i ns = Some ch \<Longrightarrow> ch \<noteq> [] \<and> node_id (hd ch) = i \<and> last ch \<in> set ns"
  by (induction i n and i ns arbitrary: ch and ch rule: chain_in_chain_in_list.induct)
     (auto simp: node_id_def split: if_splits option.splits)

lemma chain_in_links:
  "chain_in i n = Some ch \<Longrightarrow> Suc k < length ch \<Longrightarrow> ch ! k \<in> set (childNodes (ch ! Suc k))"
  "chain_in_list i ns = Some ch \<Longrightarrow> Suc k < length ch \<Longrightarrow> ch ! k \<in> set (childNodes (ch ! Suc k))"
proof (induction i n and i ns arbitrary: ch k and ch k rule: chain_in_chain_in_list.induct)
  case (1 i p cs)
  show ?case
  proof (cases "nid p = i")
    case True
    with 1 show ?thesis by auto
  next
    case False
    with 1(2) obtain ch' where ch': "chain_in_list i cs = Some ch'" "ch = ch' @ [Element p cs]"
      by (auto split: option.splits)
    show ?thesis
    proof (cases "Suc k < length ch'")
      case True
      with 1(1)[OF False ch'(1) True] ch'(2) show ?thesis by (simp add: nth_append)
    next
      case False
      with 1(3) ch'(2) have k: "Suc k = length ch'" by simp
      from chain_in_shape(2)[OF ch'(1)] have "last ch' \<in> set cs" "ch' \<noteq> []" by auto
      moreover have "ch ! k = last ch'" using k ch'(2) \<open>ch' \<noteq> []\<close>
        by (metis diff_Suc_1 last_conv_nth nth_append lessI)
      moreover have "ch ! Suc k = Element p cs" using k ch'(2) by (simp add: nth_append)
      ultimately show ?thesis by simp
    qed
  qed
next
  case (2 i)
  then show ?case by simp
next
  case (3 i c cs)
  then show ?case by (auto split: option.splits)
qed

text \<open>
  C2. For an element of a document, \<open>ch\<close> being the element followed by its ancestors up to
  the root element: the visibility check returns false if the element or one of its
  ancestors has computed \<^verbatim>\<open>display\<close> \<^verbatim>\<open>none\<close>, computed \<^verbatim>\<open>visibility\<close> \<^verbatim>\<open>hidden\<close>, a \<^verbatim>\<open>hidden\<close>
  attribute or \<^verbatim>\<open>aria-hidden\<close> equal to \<^verbatim>\<open>true\<close>; if none of the four signals holds anywhere
  on the chain, the walk reaches the document node and the check returns true.
\<close>

theorem isVisible_hidden_signals:
  "ancestor_chain d element = Some ch \<Longrightarrow>
   isVisible d element = Inr (\<not> (\<exists>a\<in>set ch. hidden_signal a))"
  by (simp add: isVisible_def isVisibleRec_iff)

theorem isVisible_hidden_signals_witness:
  "ancestor_chain main_doc 6 \<noteq> None \<and> isVisible main_doc 6 = Inr False \<and>
   ancestor_chain main_doc 4 \<noteq> None \<and> isVisible main_doc 4 = Inr True"
  using isVisible_hidden_signals [of main_doc 6] isVisible_hidden_signals [of main_doc 4]
  by (simp add: example_defs dom_defs hidden_signal_def)

subsection \<open>getAllDocuments\<close>

lemma filter_truthy_map:
  "filter_truthy (map (\<lambda>x. case f x of Inl e \<Rightarrow> None | Inr y \<Rightarrow> Some y) xs) =
   concat (map (\<lambda>x. case f x of Inl e \<Rightarrow> [] | Inr y \<Rightarrow> [y]) xs)"
  by (induction xs) (auto split: sum.splits)

text \<open>
  C4. The document enumeration never throws. It returns the top document (handle \<open>0\<close>)
  followed, in document order of the iframe elements of the top document, by the content
  document of every iframe for which the access succeeds; an iframe whose access throws
  contributes nothing.
\<close>

theorem getAllDocuments_reachable:
  "getAllDocuments pg =
     Inr (0 # concat (map (\<lambda>iframe. case contentWindow_document pg iframe of
                                      Inl e \<Rightarrow> [] | Inr doc \<Rightarrow> [doc])
                       (map node_id (filter (\<lambda>n. toLowerCase (tagName (props n)) = ''iframe'')
                                       (elements_of (docs pg 0))))))"
  by (simp add: getAllDocuments_def querySelectorAll_def type_selector_def comp_def
      filter_truthy_map [where f = "\<lambda>x. contentWindow_document pg (node_id x)"])

text \<open>The page with one same-origin and one cross-origin iframe.\<close>

lemma getAllDocuments_example: "getAllDocuments example_page = Inr [0, 1]"
  by (simp add: getAllDocuments_def example_defs dom_defs)

subsection \<open>hasParentWithName\<close>

text \<open>
  C10. \<open>hasParentWithName\<close> reads \<^verbatim>\<open>element.parentElement.tagName\<close> without a guard: for an
  element whose \<^verbatim>\<open>parentElement\<close> is \<^verbatim>\<open>null\<close> it throws a \<^verbatim>\<open>TypeError\<close>, and the root element of
  a document is such an element. When the parent exists (its tag name, as every tag name
  of the DOM, is not empty), the result is true exactly if the parent's lowercased tag name
  is an entry of the list.
\<close>

theorem hasParentWithName_cases:
  "(parentElement d element = None \<longrightarrow> hasParentWithName d element tagNames = Inl TypeError) \<and>
   (\<forall>root. documentElement d = Some root \<longrightarrow> parentElement d (node_id root) = None) \<and>
   (\<forall>parent. parentElement d element = Some parent \<longrightarrow> tagName (props parent) \<noteq> [] \<longrightarrow>
      hasParentWithName d element tagNames =
        Inr (toLowerCase (tagName (props parent)) \<in> set tagNames))"
proof -
  have "parentElement d (node_id root) = None" if "documentElement d = Some root" for root
    using that by (cases root) (simp add: parentElement_def ancestor_chain_def node_id_def)
  then show ?thesis
    by (auto simp: hasParentWithName_def toLowerCase_def list_ex_iff)
qed

theorem hasParentWithName_cases_witness:
  "parentElement main_doc 1 = None \<and> hasParentWithName main_doc 1 [''body''] = Inl TypeError \<and>
   parentElement main_doc 4 \<noteq> None \<and> hasParentWithName main_doc 4 [''body''] = Inr True \<and>
   hasParentWithName main_doc 6 [''body''] = Inr False"
  using hasParentWithName_cases [of main_doc 1 "[''body'']"]
    hasParentWithName_cases [of main_doc 4 "[''body'']"]
    hasParentWithName_cases [of main_doc 6 "[''body'']"]
  by (simp add: example_defs dom_defs)

subsection \<open>Loops and the body\<close>

lemma forEach_append:
  "forEach f (xs @ ys) s =
     (case forEach f xs s of Throws e s' \<Rightarrow> Throws e s' | Returns u s' \<Rightarrow> forEach f ys s')"
  by (induction xs arbitrary: s) (auto split: outcome.splits)

lemma forEach_unchanged:
  "(\<And>x. x \<in> set xs \<Longrightarrow> f x s = Returns () s) \<Longrightarrow> forEach f xs s = Returns () s"
  by (induction xs) auto

lemma find_map_first:
  "(\<And>x. P x \<Longrightarrow> P (g x)) \<Longrightarrow> find P (map_first P g cs) = map_option g (find P cs)"
  by (induction cs) auto

lemma is_body_element_props [simp]: "is_body_element (Element (props b) cs) = is_body_element b"
  by (simp add: is_body_element_def)

lemma body_update_body:
  "body (update_body f d) = map_option (\<lambda>b. Element (props b) (f (childNodes b))) (body d)"
  by (cases "documentElement d") (auto simp: body_def update_body_def find_map_first)

lemma body_children_update_body:
  "body d \<noteq> None \<Longrightarrow> body_children (update_body f d) = f (body_children d)"
  by (auto simp: body_children_def body_update_body)

subsection \<open>A document without a root element\<close>

lemma addNodes_targets_no_elements:
  assumes "elements_of d = []" and "\<forall>t\<in>set ts. selector t \<noteq> Malformed"
  shows "forEach (addNodes_target fmt ps) ts (c, d) = Returns () (c, d)"
proof (rule forEach_unchanged)
  fix t assume "t \<in> set ts"
  with assms(2) obtain m where "selector t = Matches m" by (cases "selector t") auto
  with assms(1) show "addNodes_target fmt ps t (c, d) = Returns () (c, d)"
    by (simp add: addNodes_target_def querySelectorAll_def split: option.splits)
qed

text \<open>
  C9. When a document has no first element child (and so no element with the stylesheet
  href), the stylesheet step raises nothing and leaves the document as it is: the link
  that was created is not inserted, and the document is still without the stylesheet.
  The pass continues: with well-formed selectors the callback of this document completes,
  counter and page unchanged.
\<close>

theorem add_stylesheet_without_root:
  assumes "documentElement (docs pg h) = None"
  shows "add_stylesheet (docs pg h) = Inr (docs pg h) \<and>
         querySelector (docs pg h) href_selector = Inr None \<and>
         ((\<forall>t\<in>set (targetList ps). selector t \<noteq> Malformed) \<longrightarrow>
            addNodes_doc fmt ps h (c, pg) = Returns () (c, pg))"
proof -
  have e: "elements_of (docs pg h) = []" using assms by (simp add: elements_of_def)
  have 1: "querySelector (docs pg h) href_selector = Inr None"
    by (simp add: querySelector_def href_selector_def e)
  have 2: "add_stylesheet (docs pg h) = Inr (docs pg h)"
    using assms by (simp add: add_stylesheet_def 1 Let_def)
  show ?thesis
    using addNodes_targets_no_elements [OF e, of "targetList ps" fmt ps c]
    by (auto simp: 1 2 addNodes_doc_def)
qed

theorem add_stylesheet_without_root_witness:
  "documentElement (docs blank_page 0) = None \<and>
   list_all (\<lambda>t. selector t \<noteq> Malformed) (targetList example_params) \<and>
   addNodes_doc (\<lambda>i. i) example_params 0 (0, blank_page) = Returns () (0, blank_page) \<and>
   querySelector (docs blank_page 0) href_selector = Inr None"
  using add_stylesheet_without_root [of blank_page 0 example_params "\<lambda>i. i" 0]
  by (simp add: blank_page_def example_defs type_selector_def)

subsection \<open>removeNodes\<close>

text \<open>
  For a marker class that is an identifier the query of \<open>removeNodes\<close> is well-formed, whatever
  the selector engine: it returns the \<^verbatim>\<open>div\<close> elements of that class.
\<close>

lemma querySelectorAll_div_class:
  "is_plain_identifier cname \<Longrightarrow>
   querySelectorAll d (div_class_selector engine cname) =
     Inr (map nid (filter (is_div_class (quirksMode d) cname) (props_of d)))"
  by (simp add: querySelectorAll_def div_class_selector_def props_of_def
      filter_map comp_def node_id_def [abs_def])

lemma no_marked_props:
  "no_marked cname pg \<longleftrightarrow>
     (\<forall>h\<in>set (reachable pg).
        filter (is_div_class (quirksMode (docs pg h)) cname) (props_of (docs pg h)) = [])"
  by (simp add: no_marked_def props_of_def filter_map comp_def)

lemma no_marked_query:
  assumes "is_plain_identifier cname"
  shows "no_marked cname pg \<longleftrightarrow>
     (\<forall>h\<in>set (reachable pg).
        querySelectorAll (docs pg h) (div_class_selector (selectorEngine pg) cname) = Inr [])"
  unfolding no_marked_props by (simp add: querySelectorAll_div_class [OF assms])

text \<open>
  C7, as amended. Let \<open>C\<close> be a marker class that is an identifier (letters, digits, hyphens
  and underscores of ASCII, not beginning with a digit or with two hyphens, and not a lone
  hyphen), so that \<^verbatim>\<open>"div." + C\<close> is the selector of the \<^verbatim>\<open>div\<close> elements of class \<open>C\<close>. When no
  reachable document has a \<^verbatim>\<open>div\<close> element of class \<open>C\<close>, \<open>removeNodes C\<close> raises no exception and
  leaves the page as it is; so does a second identical call after it.
\<close>

theorem removeNodes_noop:
  assumes "is_plain_identifier cname" and "no_marked cname pg"
  shows "removeNodes cname pg = Returns () pg \<and>
         removeNodes cname (state_of (removeNodes cname pg)) = Returns () pg"
proof -
  obtain ds where ds: "getAllDocuments pg = Inr ds" "reachable pg = ds"
    by (cases "getAllDocuments pg")
       (auto simp: reachable_def getAllDocuments_def querySelectorAll_def type_selector_def)
  have "removeNodes_doc cname h pg = Returns () pg" if "h \<in> set ds" for h
  proof -
    from assms(2) that ds(2)
    have "filter (is_div_class (quirksMode (docs pg h)) cname) (props_of (docs pg h)) = []"
      unfolding no_marked_props by blast
    with querySelectorAll_div_class [OF assms(1), of "docs pg h" "selectorEngine pg"]
    have "querySelectorAll (docs pg h) (div_class_selector (selectorEngine pg) cname) = Inr []"
      by simp
    then show ?thesis by (simp add: removeNodes_doc_def)
  qed
  then have "forEach (removeNodes_doc cname) ds pg = Returns () pg"
    by (intro forEach_unchanged)
  then have "removeNodes cname pg = Returns () pg" by (simp add: removeNodes_def ds)
  then show ?thesis by simp
qed

lemma no_marked_example_page: "no_marked ''mark'' example_page"
  by (simp add: no_marked_def reachable_def getAllDocuments_example)
     (simp add: example_defs dom_defs)

theorem removeNodes_noop_witness:
  "is_plain_identifier ''mark'' \<and> no_marked ''mark'' example_page \<and>
   removeNodes ''mark'' example_page = Returns () example_page"
proof -
  have 1: "is_plain_identifier ''mark''"
    by (simp add: is_plain_identifier_def ident_start_def ident_char_def)
  from removeNodes_noop [OF 1 no_marked_example_page] 1 no_marked_example_page
  show ?thesis by simp
qed

text \<open>
  C7 as stated fails for a marker class that is not an identifier: \<^verbatim>\<open>"div.1abc"\<close> is no
  selector. No document of the example page has a \<^verbatim>\<open>div\<close> element of class \<^verbatim>\<open>1abc\<close>, and
  \<open>removeNodes\<close> throws a \<^verbatim>\<open>SyntaxError\<close> at the query of the first document.
\<close>

theorem removeNodes_noop_counterexample:
  "no_marked ''1abc'' example_page \<and>
   removeNodes ''1abc'' example_page = Throws SyntaxError example_page"
proof -
  have "no_marked ''1abc'' example_page"
    by (simp add: no_marked_def reachable_def getAllDocuments_example)
       (simp add: example_defs dom_defs)
  moreover have "removeNodes ''1abc'' example_page = Throws SyntaxError example_page"
    by (simp add: removeNodes_def getAllDocuments_example removeNodes_doc_def
        querySelectorAll_def div_class_selector_def is_plain_identifier_def ident_start_def
        begins_with_digit_def)
  ultimately show ?thesis by simp
qed













text \<open>On the example the outcome is a \<^verbatim>\<open>NotFoundError\<close> after the first overlay was removed.\<close>

lemma nested_removeNodes:
  "removeNodes ''mark'' nested_page =
     Throws NotFoundError
       (nested_page\<lparr>docs := (docs nested_page)(0 := update_body (remove_child 10) nested_doc)\<rparr>)"
  by (simp add: removeNodes_def removeNodes_doc_def removeNodes_element_def getAllDocuments_def
      example_defs dom_defs body_removeChild_def update_body_def)


subsection \<open>Appending overlays to the body\<close>

lemma find_decomp:
  "find P cs = Some b \<Longrightarrow> \<exists>pre post. cs = pre @ b # post \<and> (\<forall>x\<in>set pre. \<not> P x) \<and> P b"
proof (induction cs)
  case Nil
  then show ?case by simp
next
  case (Cons c cs)
  show ?case
  proof (cases "P c")
    case True
    with Cons.prems have "c # cs = [] @ b # cs \<and> (\<forall>x\<in>set []. \<not> P x) \<and> P b" by simp
    then show ?thesis by blast
  next
    case False
    with Cons obtain pre post where "cs = pre @ b # post" "\<forall>x\<in>set pre. \<not> P x" "P b" by auto
    with False have "c # cs = (c # pre) @ b # post \<and> (\<forall>x\<in>set (c # pre). \<not> P x) \<and> P b" by simp
    then show ?thesis by blast
  qed
qed

lemma map_first_decomp:
  "\<forall>x\<in>set pre. \<not> P x \<Longrightarrow> P b \<Longrightarrow> map_first P g (pre @ b # post) = pre @ g b # post"
  by (induction pre) auto

lemma body_decomp:
  assumes "body d = Some b"
  shows "\<exists>p pre post. documentElement d = Some (Element p (pre @ b # post)) \<and>
           (\<forall>f. update_body f d =
              d\<lparr>documentElement := Some (Element p (pre @ Element (props b) (f (childNodes b)) # post))\<rparr>)"
proof -
  from assms obtain root where root: "documentElement d = Some root"
    and f: "find is_body_element (childNodes root) = Some b"
    by (auto simp: body_def split: option.splits if_splits)
  from find_decomp [OF f] obtain pre post where
    cs: "childNodes root = pre @ b # post" and pre: "\<forall>x\<in>set pre. \<not> is_body_element x"
    and b: "is_body_element b" by blast
  have "documentElement d = Some (Element (props root) (pre @ b # post))"
    using root cs by (cases root) simp
  moreover have "update_body f d =
      d\<lparr>documentElement := Some (Element (props root) (pre @ Element (props b) (f (childNodes b)) # post))\<rparr>" for f
    using root cs map_first_decomp [OF pre b] by (simp add: update_body_def)
  ultimately show ?thesis by blast
qed

lemma descendants_unfold:
  "descendants n = n # concat (map descendants (childNodes n))"
  by (cases n) simp

lemma props_of_add_overlays:
  assumes "body d \<noteq> None"
  shows "\<exists>xs ys. props_of d = xs @ ys \<and>
           (\<forall>ovs. props_of (add_overlays d ovs) =
              xs @ concat (map (\<lambda>ov. map props (descendants ov)) ovs) @ ys)"
proof -
  from assms obtain b where "body d = Some b" by auto
  from body_decomp [OF this] obtain p pre post where
    root: "documentElement d = Some (Element p (pre @ b # post))"
    and upd: "\<And>f. update_body f d =
       d\<lparr>documentElement := Some (Element p (pre @ Element (props b) (f (childNodes b)) # post))\<rparr>"
    by blast
  let ?xs = "p # concat (map (map props \<circ> descendants) pre) @ props b #
               concat (map (map props \<circ> descendants) (childNodes b))"
  let ?ys = "concat (map (map props \<circ> descendants) post)"
  have "props_of d = ?xs @ ?ys"
    using root by (simp add: props_of_def elements_of_def map_concat descendants_unfold [of b])
  moreover have "props_of (add_overlays d ovs) =
      ?xs @ concat (map (\<lambda>ov. map props (descendants ov)) ovs) @ ?ys" for ovs
    by (simp add: props_of_def elements_of_def add_overlays_def upd map_concat comp_def)
  ultimately show ?thesis by blast
qed

lemma body_add_overlays:
  "body (add_overlays d ovs) = map_option (\<lambda>b. Element (props b) (childNodes b @ ovs)) (body d)"
  by (simp add: add_overlays_def body_update_body)

lemma body_add_overlays_None [simp]: "body (add_overlays d ovs) = None \<longleftrightarrow> body d = None"
  by (simp add: body_add_overlays)

lemma body_children_add_overlays:
  "body d \<noteq> None \<Longrightarrow> body_children (add_overlays d ovs) = body_children d @ ovs"
  by (simp add: add_overlays_def body_children_update_body)

lemma update_body_twice:
  "update_body g (update_body f d) = update_body (g \<circ> f) d"
proof (cases "documentElement d")
  case None
  then show ?thesis by (simp add: update_body_def)
next
  case (Some root)
  have "map_first is_body_element (\<lambda>b. Element (props b) (g (childNodes b)))
          (map_first is_body_element (\<lambda>b. Element (props b) (f (childNodes b))) cs) =
        map_first is_body_element (\<lambda>b. Element (props b) (g (f (childNodes b)))) cs" for cs
    by (induction cs) auto
  with Some show ?thesis by (simp add: update_body_def)
qed

lemma update_body_same:
  assumes "\<And>cs. f cs = cs"
  shows "update_body f d = d"
proof (cases "documentElement d")
  case None
  then show ?thesis by (simp add: update_body_def)
next
  case (Some root)
  have "map_first is_body_element (\<lambda>b. Element (props b) (childNodes b)) cs = cs" for cs
    by (induction cs) auto
  with Some assms show ?thesis by (cases root) (simp add: update_body_def)
qed

lemma add_overlays_Nil [simp]: "add_overlays d [] = d"
  by (simp add: add_overlays_def update_body_same)

lemma add_overlays_append: "add_overlays (add_overlays d xs) ys = add_overlays d (xs @ ys)"
  by (simp add: add_overlays_def update_body_twice comp_def)

subsection \<open>Visibility is not changed by the overlays\<close>

lemma chain_in_None_iff:
  "chain_in i n = None \<longleftrightarrow> i \<notin> set (map node_id (descendants n))"
  "chain_in_list i ns = None \<longleftrightarrow> i \<notin> set (map node_id (concat (map descendants ns)))"
  by (induction i n and i ns rule: chain_in_chain_in_list.induct)
     (auto simp: node_id_def split: option.splits)

lemma chain_in_list_append:
  "chain_in_list i (xs @ ys) =
     (case chain_in_list i xs of Some ch \<Rightarrow> Some ch | None \<Rightarrow> chain_in_list i ys)"
  by (induction xs) (auto split: option.splits)

lemma ancestor_chain_in_document:
  "ancestor_chain d e = Some ch \<Longrightarrow> e \<in> set (map node_id (elements_of d))"
proof -
  assume "ancestor_chain d e = Some ch"
  then obtain root where "documentElement d = Some root" "chain_in e root \<noteq> None"
    by (auto simp: ancestor_chain_def split: option.splits)
  then show ?thesis by (simp add: elements_of_def chain_in_None_iff(1))
qed

lemma foldr_max_ge: "x \<in> set xs \<Longrightarrow> x \<le> foldr max xs (0::nat)"
  by (induction xs) (auto simp: max_def)

lemma fresh_id_greater: "e \<in> set (map node_id (elements_of d)) \<Longrightarrow> e < fresh_id d"
  using foldr_max_ge [of e "map node_id (elements_of d)"] by (simp add: fresh_id_def)

lemma overlay_shape_ids:
  "overlay_shape cname k ov \<Longrightarrow> map node_id (descendants ov) = [k, Suc k]"
  by (auto simp: overlay_shape_def node_id_def)

lemma ancestor_chain_add_overlays:
  assumes ch: "ancestor_chain d e = Some ch"
    and fresh: "\<forall>ov\<in>set ovs. e \<notin> set (map node_id (descendants ov))"
    and b: "body d \<noteq> None"
  shows "\<exists>ch'. ancestor_chain (add_overlays d ovs) e = Some ch' \<and> map props ch' = map props ch"
proof -
  from b obtain bd where "body d = Some bd" by auto
  from body_decomp [OF this] obtain p pre post where
    root: "documentElement d = Some (Element p (pre @ bd # post))"
    and upd: "\<And>f. update_body f d =
       d\<lparr>documentElement := Some (Element p (pre @ Element (props bd) (f (childNodes bd)) # post))\<rparr>"
    by blast
  let ?bd' = "Element (props bd) (childNodes bd @ ovs)"
  let ?root = "Element p (pre @ bd # post)" and ?root' = "Element p (pre @ ?bd' # post)"
  have new: "ancestor_chain (add_overlays d ovs) e = chain_in e ?root'"
    by (simp add: ancestor_chain_def add_overlays_def upd)
  have old: "chain_in e ?root = Some ch" using ch root by (simp add: ancestor_chain_def)
  have none: "chain_in_list e ovs = None"
    using fresh by (auto simp: chain_in_None_iff(2))
  have bd_eq: "bd = Element (props bd) (childNodes bd)" by (cases bd) simp
  show ?thesis
  proof (cases "nid p = e")
    case True
    with old new show ?thesis by auto
  next
    case False
    note p = this
    show ?thesis
    proof (cases "chain_in_list e pre")
      case (Some c)
      with old new p show ?thesis by (auto simp: chain_in_list_append)
    next
      case None
      note pre = this
      show ?thesis
      proof (cases "nid (props bd) = e")
        case True
        have "chain_in e bd = Some [bd]" using True by (cases bd) simp
        with old new p pre True show ?thesis by (auto simp: chain_in_list_append)
      next
        case False
        note nb = this
        show ?thesis
        proof (cases "chain_in_list e (childNodes bd)")
          case (Some c)
          then have "chain_in e bd = Some (c @ [bd])" using nb by (cases bd) simp
          moreover have "chain_in e ?bd' = Some (c @ [?bd'])"
            using Some nb by (simp add: chain_in_list_append)
          ultimately show ?thesis using old new p pre by (auto simp: chain_in_list_append)
        next
          case None
          then have "chain_in e bd = None" using nb by (cases bd) simp
          moreover have "chain_in e ?bd' = None"
            using None nb none by (simp add: chain_in_list_append)
          ultimately show ?thesis using old new p pre
            by (auto simp: chain_in_list_append split: option.splits)
        qed
      qed
    qed
  qed
qed

lemma isVisibleRec_props:
  "map props ch' = map props ch \<Longrightarrow> isVisibleRec ch' = isVisibleRec ch"
proof (induction ch arbitrary: ch')
  case Nil
  then show ?case by simp
next
  case (Cons a ch)
  then obtain a' r where "ch' = a' # r" "props a' = props a" "map props r = map props ch"
    by (cases ch') auto
  with Cons.IH [of r] show ?case by (simp add: getAttribute_def)
qed

lemma isVisible_add_overlays:
  assumes "e \<in> set (map node_id (elements_of d))"
    and "\<forall>ov\<in>set ovs. e \<notin> set (map node_id (descendants ov))"
    and "body d \<noteq> None"
  shows "isVisible (add_overlays d ovs) e = isVisible d e"
proof -
  from assms(1) obtain root where "documentElement d = Some root"
    "e \<in> set (map node_id (descendants root))"
    by (cases "documentElement d") (auto simp: elements_of_def)
  then have "ancestor_chain d e \<noteq> None"
    using chain_in_None_iff(1) [of e root] by (simp add: ancestor_chain_def)
  then obtain ch where ch: "ancestor_chain d e = Some ch" by auto
  from ancestor_chain_add_overlays [OF ch assms(2,3)] obtain ch' where
    "ancestor_chain (add_overlays d ovs) e = Some ch'" "map props ch' = map props ch" by blast
  with ch isVisibleRec_props [of ch' ch] show ?thesis by (simp add: isVisible_def)
qed

subsection \<open>The loops of addNodes\<close>

lemma addNodes_element_cases:
  "(\<exists>err. addNodes_element fmt ps tgt e (c, d) = Throws err (c, d)) \<or>
   (addNodes_element fmt ps tgt e (c, d) = Returns () (c, d) \<and> isVisible d e = Inr False) \<or>
   (\<exists>ov. addNodes_element fmt ps tgt e (c, d) = Returns () (Suc c, add_overlays d [ov]) \<and>
      isVisible d e = Inr True \<and> body d \<noteq> None \<and> overlay_shape (cssClass ps) (fresh_id d) ov)"
  by (auto simp: addNodes_element_def Let_def createOverlay_def addDragAndDrop_def
      set_label_title_def setAttribute_def body_appendChild_def overlay_shape_def add_overlays_def
      split: sum.splits option.splits bool.splits)

lemma overlays_from_append:
  "overlays_from cname d (xs @ ys) \<longleftrightarrow>
     overlays_from cname d xs \<and> overlays_from cname (add_overlays d xs) ys"
  by (induction xs arbitrary: d) (auto simp: add_overlays_append)

lemma ids_add_overlays:
  assumes "body d \<noteq> None"
  shows "set (map node_id (elements_of d)) \<subseteq> set (map node_id (elements_of (add_overlays d ovs)))"
proof -
  from props_of_add_overlays [OF assms] obtain xs ys where
    "props_of d = xs @ ys"
    "props_of (add_overlays d ovs) = xs @ concat (map (\<lambda>ov. map props (descendants ov)) ovs) @ ys"
    by blast
  then have "set (map nid (props_of d)) \<subseteq> set (map nid (props_of (add_overlays d ovs)))"
    by auto
  then show ?thesis by (simp add: props_of_def node_id_def [abs_def] comp_def)
qed

lemma foldr_max_le: "\<forall>x\<in>set xs. x \<le> m \<Longrightarrow> foldr max xs (0::nat) \<le> m"
  by (induction xs) auto

lemma fresh_id_mono:
  assumes "set (map node_id (elements_of d)) \<subseteq> set (map node_id (elements_of d'))"
  shows "fresh_id d \<le> fresh_id d'"
proof -
  have "\<forall>x\<in>set (map node_id (elements_of d)). x \<le> foldr max (map node_id (elements_of d')) 0"
    using assms foldr_max_ge by blast
  from foldr_max_le [OF this] show ?thesis by (simp add: fresh_id_def)
qed

lemma overlays_from_fresh:
  "overlays_from cname d ovs \<Longrightarrow> body d \<noteq> None \<Longrightarrow>
   \<forall>ov\<in>set ovs. \<forall>i\<in>set (map node_id (descendants ov)). fresh_id d \<le> i"
proof (induction ovs arbitrary: d)
  case Nil
  then show ?case by simp
next
  case (Cons ov ovs)
  from Cons.prems have sh: "overlay_shape cname (fresh_id d) ov"
    and rest: "overlays_from cname (add_overlays d [ov]) ovs" by simp_all
  have "fresh_id d \<le> fresh_id (add_overlays d [ov])"
    using fresh_id_mono [OF ids_add_overlays [OF Cons.prems(2)]] .
  moreover from Cons.IH [OF rest] Cons.prems(2)
  have "\<forall>ov'\<in>set ovs. \<forall>i\<in>set (map node_id (descendants ov')). fresh_id (add_overlays d [ov]) \<le> i"
    by simp
  ultimately show ?case using overlay_shape_ids [OF sh] by fastforce
qed

lemma isVisible_overlays:
  assumes "e \<in> set (map node_id (elements_of d))" and "overlays_from cname d ovs"
    and "ovs = [] \<or> body d \<noteq> None"
  shows "isVisible (add_overlays d ovs) e = isVisible d e"
proof (cases "body d = None")
  case True
  with assms(3) show ?thesis by simp
next
  case False
  from overlays_from_fresh [OF assms(2) False] fresh_id_greater [OF assms(1)]
  have "\<forall>ov\<in>set ovs. e \<notin> set (map node_id (descendants ov))" by fastforce
  from isVisible_add_overlays [OF assms(1) this False] show ?thesis .
qed

lemma addNodes_elements_loop:
  assumes "set els \<subseteq> set (map node_id (elements_of d0))"
    and "overlays_from (cssClass ps) d0 ovs0" and "ovs0 = [] \<or> body d0 \<noteq> None"
  shows "\<exists>ovs. overlays_from (cssClass ps) d0 (ovs0 @ ovs) \<and> (ovs = [] \<or> body d0 \<noteq> None) \<and>
           state_of (forEach (addNodes_element fmt ps tgt) els (c, add_overlays d0 ovs0)) =
             (c + length ovs, add_overlays d0 (ovs0 @ ovs)) \<and>
           (\<forall>u s. forEach (addNodes_element fmt ps tgt) els (c, add_overlays d0 ovs0) = Returns u s \<longrightarrow>
              length ovs = length (filter (\<lambda>e. isVisible d0 e = Inr True) els))"
  using assms
proof (induction els arbitrary: c ovs0)
  case Nil
  then have "overlays_from (cssClass ps) d0 (ovs0 @ []) \<and> ([] = [] \<or> body d0 \<noteq> None) \<and>
      state_of (forEach (addNodes_element fmt ps tgt) [] (c, add_overlays d0 ovs0)) =
        (c + length ([]::node list), add_overlays d0 (ovs0 @ [])) \<and>
      (\<forall>u s. forEach (addNodes_element fmt ps tgt) [] (c, add_overlays d0 ovs0) = Returns u s \<longrightarrow>
          length ([]::node list) = length (filter (\<lambda>e. isVisible d0 e = Inr True) []))" by simp
  then show ?case by blast
next
  case (Cons e els)
  let ?d = "add_overlays d0 ovs0"
  let ?step = "addNodes_element fmt ps tgt e (c, ?d)"
  from Cons.prems have e: "e \<in> set (map node_id (elements_of d0))"
    and els: "set els \<subseteq> set (map node_id (elements_of d0))" by simp_all
  have vis: "isVisible ?d e = isVisible d0 e"
    using isVisible_overlays [OF e Cons.prems(2,3)] .
  from addNodes_element_cases [of fmt ps tgt e c ?d]
  consider (throws) err where "?step = Throws err (c, ?d)"
    | (skip) "?step = Returns () (c, ?d)" "isVisible ?d e = Inr False"
    | (overlay) ov where "?step = Returns () (Suc c, add_overlays ?d [ov])"
        "isVisible ?d e = Inr True" "body ?d \<noteq> None" "overlay_shape (cssClass ps) (fresh_id ?d) ov"
    by blast
  then show ?case
  proof cases
    case throws
    with Cons.prems have "overlays_from (cssClass ps) d0 (ovs0 @ []) \<and> ([] = [] \<or> body d0 \<noteq> None) \<and>
      state_of (forEach (addNodes_element fmt ps tgt) (e # els) (c, ?d)) =
        (c + length ([]::node list), add_overlays d0 (ovs0 @ [])) \<and>
      (\<forall>u s. forEach (addNodes_element fmt ps tgt) (e # els) (c, ?d) = Returns u s \<longrightarrow>
          length ([]::node list) = length (filter (\<lambda>e. isVisible d0 e = Inr True) (e # els)))" by simp
    then show ?thesis by blast
  next
    case skip
    from Cons.IH [OF els Cons.prems(2,3), of c] obtain ovs where
      "overlays_from (cssClass ps) d0 (ovs0 @ ovs)" "ovs = [] \<or> body d0 \<noteq> None"
      "state_of (forEach (addNodes_element fmt ps tgt) els (c, ?d)) =
         (c + length ovs, add_overlays d0 (ovs0 @ ovs))"
      "\<forall>u s. forEach (addNodes_element fmt ps tgt) els (c, ?d) = Returns u s \<longrightarrow>
         length ovs = length (filter (\<lambda>e. isVisible d0 e = Inr True) els)" by blast
    with skip vis have "overlays_from (cssClass ps) d0 (ovs0 @ ovs) \<and> (ovs = [] \<or> body d0 \<noteq> None) \<and>
      state_of (forEach (addNodes_element fmt ps tgt) (e # els) (c, ?d)) =
        (c + length ovs, add_overlays d0 (ovs0 @ ovs)) \<and>
      (\<forall>u s. forEach (addNodes_element fmt ps tgt) (e # els) (c, ?d) = Returns u s \<longrightarrow>
          length ovs = length (filter (\<lambda>e. isVisible d0 e = Inr True) (e # els)))" by simp
    then show ?thesis by blast
  next
    case overlay
    have b0: "body d0 \<noteq> None" using overlay(3) by simp
    have d': "add_overlays ?d [ov] = add_overlays d0 (ovs0 @ [ov])"
      by (simp add: add_overlays_append)
    have of': "overlays_from (cssClass ps) d0 (ovs0 @ [ov])"
      using Cons.prems(2) overlay(4) by (simp add: overlays_from_append)
    from Cons.IH [OF els of', of "Suc c"] b0 obtain ovs where
      o: "overlays_from (cssClass ps) d0 ((ovs0 @ [ov]) @ ovs)"
      and s: "state_of (forEach (addNodes_element fmt ps tgt) els (Suc c, add_overlays d0 (ovs0 @ [ov]))) =
         (Suc c + length ovs, add_overlays d0 ((ovs0 @ [ov]) @ ovs))"
      and r: "\<forall>u s. forEach (addNodes_element fmt ps tgt) els (Suc c, add_overlays d0 (ovs0 @ [ov])) = Returns u s \<longrightarrow>
         length ovs = length (filter (\<lambda>e. isVisible d0 e = Inr True) els)" by blast
    from o s r overlay(1,2) vis b0 d'
    have "overlays_from (cssClass ps) d0 (ovs0 @ (ov # ovs)) \<and> (ov # ovs = [] \<or> body d0 \<noteq> None) \<and>
      state_of (forEach (addNodes_element fmt ps tgt) (e # els) (c, ?d)) =
        (c + length (ov # ovs), add_overlays d0 (ovs0 @ (ov # ovs))) \<and>
      (\<forall>u s. forEach (addNodes_element fmt ps tgt) (e # els) (c, ?d) = Returns u s \<longrightarrow>
          length (ov # ovs) = length (filter (\<lambda>e. isVisible d0 e = Inr True) (e # els)))" by simp
    then show ?thesis by blast
  qed
qed

lemma Array_filter_Inr:
  "Array_filter f xs = Inr ys \<Longrightarrow> ys = filter (\<lambda>x. f x = Inr True) xs"
  by (induction xs arbitrary: ys) (auto split: sum.splits)

lemma addNodes_target_step:
  "\<exists>ovs. overlays_from (cssClass ps) d ovs \<and> (ovs = [] \<or> body d \<noteq> None) \<and>
     state_of (addNodes_target fmt ps t (c, d)) = (c + length ovs, add_overlays d ovs) \<and>
     (\<forall>u s. addNodes_target fmt ps t (c, d) = Returns u s \<longrightarrow> length ovs = counted d t)"
proof -
  have trivial: ?thesis if "\<exists>e. addNodes_target fmt ps t (c, d) = Throws e (c, d)"
  proof -
    from that have "overlays_from (cssClass ps) d [] \<and> ([] = [] \<or> body d \<noteq> None) \<and>
      state_of (addNodes_target fmt ps t (c, d)) = (c + length ([]::node list), add_overlays d []) \<and>
      (\<forall>u s. addNodes_target fmt ps t (c, d) = Returns u s \<longrightarrow> length ([]::node list) = counted d t)"
      by auto
    then show ?thesis by blast
  qed
  show ?thesis
  proof (cases "selector t")
    case Malformed
    then show ?thesis by (intro trivial) (simp add: addNodes_target_def querySelectorAll_def)
  next
    case (Matches m)
    let ?els = "map node_id (filter (m d) (elements_of d))"
    have q: "querySelectorAll d (selector t) = Inr ?els" by (simp add: Matches querySelectorAll_def)
    let ?flt = "case filter_fn t of None \<Rightarrow> Inr ?els | Some f \<Rightarrow> Array_filter (f d) ?els"
    show ?thesis
    proof (cases ?flt)
      case (Inl e)
      then show ?thesis by (intro trivial) (simp add: addNodes_target_def q)
    next
      case (Inr els')
      then have els': "els' = filter (\<lambda>e. case filter_fn t of None \<Rightarrow> True | Some f \<Rightarrow> f d e = Inr True) ?els"
        by (auto split: option.splits dest: Array_filter_Inr)
      then have sub: "set els' \<subseteq> set (map node_id (elements_of d))" by auto
      have run: "addNodes_target fmt ps t (c, d) = forEach (addNodes_element fmt ps t) els' (c, d)"
        using Inr by (simp add: addNodes_target_def q)
      from addNodes_elements_loop [OF sub, of ps "[]" fmt t c] obtain ovs where
        "overlays_from (cssClass ps) d ovs" "ovs = [] \<or> body d \<noteq> None"
        "state_of (forEach (addNodes_element fmt ps t) els' (c, d)) = (c + length ovs, add_overlays d ovs)"
        "\<forall>u s. forEach (addNodes_element fmt ps t) els' (c, d) = Returns u s \<longrightarrow>
           length ovs = length (filter (\<lambda>e. isVisible d e = Inr True) els')" by auto
      moreover have "length (filter (\<lambda>e. isVisible d e = Inr True) els') = counted d t"
        by (simp add: els' counted_def Matches filter_map comp_def conj_commute conj_left_commute)
      ultimately show ?thesis using run by auto
    qed
  qed
qed

lemma state_of_Returns: "r = Returns u s \<Longrightarrow> state_of r = s"
  by simp

lemma addNodes_targets_loop:
  "\<exists>ovs. overlays_from (cssClass ps) d ovs \<and> (ovs = [] \<or> body d \<noteq> None) \<and>
     state_of (forEach (addNodes_target fmt ps) ts (c, d)) = (c + length ovs, add_overlays d ovs)"
proof (induction ts arbitrary: c d)
  case Nil
  have "overlays_from (cssClass ps) d [] \<and> ([] = [] \<or> body d \<noteq> None) \<and>
     state_of (forEach (addNodes_target fmt ps) [] (c, d)) = (c + length ([]::node list), add_overlays d [])"
    by simp
  then show ?case by blast
next
  case (Cons t ts)
  from addNodes_target_step [of ps d fmt t c] obtain ovs1 where
    o1: "overlays_from (cssClass ps) d ovs1" and b1: "ovs1 = [] \<or> body d \<noteq> None"
    and s1: "state_of (addNodes_target fmt ps t (c, d)) = (c + length ovs1, add_overlays d ovs1)"
    by blast
  show ?case
  proof (cases "addNodes_target fmt ps t (c, d)")
    case (Throws e s)
    with o1 b1 s1 show ?thesis by auto
  next
    case (Returns u s)
    with s1 have s: "s = (c + length ovs1, add_overlays d ovs1)" by simp
    from Cons.IH [of "add_overlays d ovs1" "c + length ovs1"] obtain ovs2 where
      o2: "overlays_from (cssClass ps) (add_overlays d ovs1) ovs2"
      and b2: "ovs2 = [] \<or> body (add_overlays d ovs1) \<noteq> None"
      and s2: "state_of (forEach (addNodes_target fmt ps) ts (c + length ovs1, add_overlays d ovs1)) =
         (c + length ovs1 + length ovs2, add_overlays (add_overlays d ovs1) ovs2)" by blast
    have "overlays_from (cssClass ps) d (ovs1 @ ovs2) \<and> (ovs1 @ ovs2 = [] \<or> body d \<noteq> None) \<and>
     state_of (forEach (addNodes_target fmt ps) (t # ts) (c, d)) =
       (c + length (ovs1 @ ovs2), add_overlays d (ovs1 @ ovs2))"
      using o1 o2 b1 b2 s2 Returns s by (auto simp: overlays_from_append add_overlays_append)
    then show ?thesis by blast
  qed
qed


lemma add_stylesheet_total: "\<exists>d1. add_stylesheet d = Inr d1"
  by (auto simp: add_stylesheet_def querySelector_def href_selector_def Let_def
      split: option.splits)



lemma is_body_element_link:
  "\<not> is_body_element (Element ((props (setAttribute (setAttribute (setAttribute (createElement d ''link'') a1 v1) a2 v2) a3 v3))\<lparr>display := x\<rparr>) cs)"
  by (simp add: is_body_element_def createElement_def setAttribute_def toUpperCase_char_def
      toLowerCase_def toLowerCase_char_def)

lemma add_stylesheet_body:
  assumes "add_stylesheet d = Inr d1"
  shows "body d1 = body d"
  using assms is_body_element_link [where d = d]
  by (cases "documentElement d")
     (auto simp: add_stylesheet_def Let_def body_def split: sum.splits option.splits)

lemma addNodes_doc_state:
  "\<exists>d1 ovs. add_stylesheet (docs pg h) = Inr d1 \<and> overlays_from (cssClass ps) d1 ovs \<and>
     (ovs = [] \<or> body d1 \<noteq> None) \<and>
     state_of (addNodes_doc fmt ps h (c, pg)) =
       (c + length ovs, pg\<lparr>docs := (docs pg)(h := add_overlays d1 ovs)\<rparr>)"
proof -
  from add_stylesheet_total obtain d1 where d1: "add_stylesheet (docs pg h) = Inr d1" by blast
  from addNodes_targets_loop [of ps d1 fmt "targetList ps" c] obtain ovs where
    o: "overlays_from (cssClass ps) d1 ovs" "ovs = [] \<or> body d1 \<noteq> None"
    and s: "state_of (forEach (addNodes_target fmt ps) (targetList ps) (c, d1)) =
       (c + length ovs, add_overlays d1 ovs)" by blast
  have "state_of (addNodes_doc fmt ps h (c, pg)) =
       (c + length ovs, pg\<lparr>docs := (docs pg)(h := add_overlays d1 ovs)\<rparr>)"
    using s by (cases "forEach (addNodes_target fmt ps) (targetList ps) (c, d1)")
      (auto simp: addNodes_doc_def d1)
  with d1 o show ?thesis by blast
qed

lemma body_children_doc_step:
  assumes "add_stylesheet d = Inr d1" and "ovs = [] \<or> body d1 \<noteq> None"
  shows "body_children (add_overlays d1 ovs) = body_children d @ ovs"
proof -
  have "body_children d1 = body_children d"
    using add_stylesheet_body [OF assms(1)] by (simp add: body_children_def)
  with assms(2) show ?thesis by (auto simp: body_children_add_overlays)
qed

lemma overlay_total_update:
  assumes "finite H" and "h \<in> H"
    and "length (body_children d') = length (body_children (docs pg h)) + k"
  shows "overlay_total H (pg\<lparr>docs := (docs pg)(h := d')\<rparr>) = overlay_total H pg + k"
proof -
  have "overlay_total H (pg\<lparr>docs := (docs pg)(h := d')\<rparr>) =
      length (body_children d') + (\<Sum>x\<in>H - {h}. length (body_children (docs pg x)))"
    using assms(1,2) by (simp add: overlay_total_def sum.remove [of H h])
  moreover have "overlay_total H pg =
      length (body_children (docs pg h)) + (\<Sum>x\<in>H - {h}. length (body_children (docs pg x)))"
    using assms(1,2) by (simp add: overlay_total_def sum.remove [of H h])
  ultimately show ?thesis using assms(3) by simp
qed

lemma addNodes_docs_overlays:
  assumes "finite H" and "set hs \<subseteq> H"
  shows "overlay_total H (snd (state_of (forEach (addNodes_doc fmt ps) hs (c, pg))))
           + c =
         overlay_total H pg + fst (state_of (forEach (addNodes_doc fmt ps) hs (c, pg)))"
  using assms(2)
proof (induction hs arbitrary: c pg)
  case Nil
  then show ?case by simp
next
  case (Cons h hs)
  from addNodes_doc_state [of pg h ps fmt c] obtain d1 ovs where
    d1: "add_stylesheet (docs pg h) = Inr d1" and b: "ovs = [] \<or> body d1 \<noteq> None"
    and s: "state_of (addNodes_doc fmt ps h (c, pg)) =
       (c + length ovs, pg\<lparr>docs := (docs pg)(h := add_overlays d1 ovs)\<rparr>)" by blast
  let ?pg1 = "pg\<lparr>docs := (docs pg)(h := add_overlays d1 ovs)\<rparr>"
  have tot: "overlay_total H ?pg1 = overlay_total H pg + length ovs"
    using Cons.prems assms(1) body_children_doc_step [OF d1 b]
    by (intro overlay_total_update) auto
  show ?case
  proof (cases "addNodes_doc fmt ps h (c, pg)")
    case (Throws e s')
    with s tot show ?thesis by simp
  next
    case (Returns u s')
    with s have s': "s' = (c + length ovs, ?pg1)" by simp
    from Cons.IH [of "c + length ovs" ?pg1] Cons.prems tot Returns s'
    show ?thesis by simp
  qed
qed

lemma reachable_eq: "getAllDocuments pg = Inr (reachable pg)"
  by (simp add: reachable_def getAllDocuments_def querySelectorAll_def type_selector_def)


text \<open>On the example page two paragraphs are counted; the one hidden by \<^verbatim>\<open>aria-hidden\<close> is not.\<close>

lemma example_addNodes:
  "(case addNodes (\<lambda>i. i) example_params example_page of Returns n pg \<Rightarrow> n = 2 | Throws e pg \<Rightarrow> False)"
  by code_simp


subsection \<open>The stylesheet link\<close>

lemma querySelector_href:
  "querySelector d href_selector = Inr None \<longleftrightarrow> href_count d = 0"
  by (auto simp: querySelector_def href_selector_def href_count_def props_of_def find_None_iff
      has_stylesheet_href_def getAttribute_def filter_empty_conv)

lemma add_stylesheet_insert:
  assumes "querySelector d href_selector = Inr None" and "documentElement d = Some root"
  shows "add_stylesheet d =
           Inr (d\<lparr>documentElement := Some (Element (props root) (stylesheet_link d # childNodes root))\<rparr>)"
  using assms
  by (simp add: add_stylesheet_def Let_def stylesheet_link_def setAttribute_def createElement_def
      toUpperCase_char_def)

lemma add_stylesheet_cases:
  assumes a: "add_stylesheet d = Inr d1"
  shows "(href_count d = 0 \<and> documentElement d \<noteq> None \<longrightarrow> href_count d1 = 1) \<and>
     (\<not> (href_count d = 0 \<and> documentElement d \<noteq> None) \<longrightarrow> d1 = d) \<and>
     (documentElement d1 = None \<longleftrightarrow> documentElement d = None)"
proof (cases "href_count d = 0")
  case False
  then have "querySelector d href_selector \<noteq> Inr None" by (simp add: querySelector_href)
  with a False show ?thesis
    by (auto simp: add_stylesheet_def querySelector_def href_selector_def split: option.splits)
next
  case True
  then have q: "querySelector d href_selector = Inr None" by (simp add: querySelector_href)
  show ?thesis
  proof (cases "documentElement d")
    case None
    with a q show ?thesis by (simp add: add_stylesheet_def Let_def)
  next
    case (Some root)
    obtain p cs where root: "root = Element p cs" by (cases root)
    from True Some have none: "\<forall>n\<in>set (descendants root). \<not> has_stylesheet_href (props n)"
      by (auto simp: href_count_def props_of_def elements_of_def filter_empty_conv)
    from add_stylesheet_insert [OF q Some] a have
      d1: "d1 = d\<lparr>documentElement := Some (Element (props root) (stylesheet_link d # childNodes root))\<rparr>"
      by simp
    have lp: "has_stylesheet_href (props (stylesheet_link d))"
      by (simp add: has_stylesheet_href_def stylesheet_link_def)
    have "filter (has_stylesheet_href \<circ> props) (concat (map descendants cs)) = []"
      using none root by (auto simp: filter_empty_conv)
    moreover have "\<not> has_stylesheet_href p" using none root by auto
    ultimately have "href_count d1 = 1"
      using lp by (simp add: d1 root href_count_def props_of_def elements_of_def filter_map
          descendants_unfold [of "stylesheet_link d"] stylesheet_link_def)
    with Some d1 True show ?thesis by simp
  qed
qed

lemma overlays_from_shape:
  "overlays_from cname d ovs \<Longrightarrow> ov \<in> set ovs \<Longrightarrow> \<exists>k. overlay_shape cname k ov"
  by (induction ovs arbitrary: d) auto

lemma overlay_shape_no_href:
  "overlay_shape cname k ov \<Longrightarrow> filter has_stylesheet_href (map props (descendants ov)) = []"
  by (auto simp: overlay_shape_def has_stylesheet_href_def map_of_eq_None_iff
      dest!: map_of_SomeD)

lemma href_count_add_overlays:
  assumes "overlays_from cname d ovs" and "ovs = [] \<or> body d \<noteq> None"
  shows "href_count (add_overlays d ovs) = href_count d"
proof (cases "ovs = []")
  case True
  then show ?thesis by simp
next
  case False
  with assms(2) have "body d \<noteq> None" by simp
  from props_of_add_overlays [OF this] obtain xs ys where
    "props_of d = xs @ ys"
    "props_of (add_overlays d ovs) = xs @ concat (map (\<lambda>ov. map props (descendants ov)) ovs) @ ys"
    by blast
  moreover have "filter has_stylesheet_href (concat (map (\<lambda>ov. map props (descendants ov)) ovs)) = []"
    using overlays_from_shape [OF assms(1)] overlay_shape_no_href
    by (fastforce simp: filter_concat)
  ultimately show ?thesis by (simp add: href_count_def)
qed

lemma documentElement_add_overlays:
  "documentElement (add_overlays d ovs) = None \<longleftrightarrow> documentElement d = None"
  by (simp add: add_overlays_def update_body_def split: option.splits)

lemma addNodes_doc_links:
  assumes "state_of (addNodes_doc fmt ps h (c, pg)) = (c', pg')"
  shows "docs pg' = (docs pg)(h := docs pg' h)"
    and "href_count (docs pg' h) = expected_links (docs pg h)"
    and "documentElement (docs pg' h) = None \<longleftrightarrow> documentElement (docs pg h) = None"
proof -
  from addNodes_doc_state [of pg h ps fmt c] assms obtain d1 ovs where
    d1: "add_stylesheet (docs pg h) = Inr d1" and o: "overlays_from (cssClass ps) d1 ovs"
    and b: "ovs = [] \<or> body d1 \<noteq> None"
    and pg': "pg' = pg\<lparr>docs := (docs pg)(h := add_overlays d1 ovs)\<rparr>" by auto
  show "docs pg' = (docs pg)(h := docs pg' h)" by (simp add: pg')
  from add_stylesheet_cases [OF d1] href_count_add_overlays [OF o b]
  show "href_count (docs pg' h) = expected_links (docs pg h)"
    by (auto simp: pg' expected_links_def)
  from add_stylesheet_cases [OF d1]
  show "documentElement (docs pg' h) = None \<longleftrightarrow> documentElement (docs pg h) = None"
    by (simp add: pg' documentElement_add_overlays)
qed

lemma expected_links_idem:
  assumes "href_count d1 = expected_links d"
    and "documentElement d1 = None \<longleftrightarrow> documentElement d = None"
  shows "expected_links d1 = expected_links d"
  using assms by (auto simp: expected_links_def)

lemma addNodes_docs_links:
  assumes "state_of (forEach (addNodes_doc fmt ps) hs (c, pg)) = (c', pg')"
  shows "(documentElement (docs pg' x) = None \<longleftrightarrow> documentElement (docs pg x) = None) \<and>
         (href_count (docs pg' x) = href_count (docs pg x) \<or>
          href_count (docs pg' x) = expected_links (docs pg x)) \<and>
         ((\<exists>u. forEach (addNodes_doc fmt ps) hs (c, pg) = Returns u (c', pg')) \<longrightarrow> x \<in> set hs \<longrightarrow>
            href_count (docs pg' x) = expected_links (docs pg x))"
  using assms
proof (induction hs arbitrary: c pg)
  case Nil
  then show ?case by simp
next
  case (Cons h hs)
  obtain c1 pg1 where s1: "state_of (addNodes_doc fmt ps h (c, pg)) = (c1, pg1)"
    by (cases "state_of (addNodes_doc fmt ps h (c, pg))")
  note step = addNodes_doc_links [OF s1]
  have x1: "(documentElement (docs pg1 x) = None \<longleftrightarrow> documentElement (docs pg x) = None) \<and>
         (href_count (docs pg1 x) = href_count (docs pg x) \<or>
          href_count (docs pg1 x) = expected_links (docs pg x)) \<and>
         (x = h \<longrightarrow> href_count (docs pg1 x) = expected_links (docs pg x))"
  proof (cases "x = h")
    case True
    with step show ?thesis by simp
  next
    case False
    with step(1) have "docs pg1 x = docs pg x" by (metis fun_upd_other)
    with False show ?thesis by simp
  qed
  show ?case
  proof (cases "addNodes_doc fmt ps h (c, pg)")
    case (Throws e s)
    with s1 Cons.prems have "pg' = pg1" by simp
    with x1 Throws show ?thesis by simp
  next
    case (Returns u s)
    with s1 have s: "s = (c1, pg1)" by simp
    with Returns Cons.prems
    have run: "state_of (forEach (addNodes_doc fmt ps) hs (c1, pg1)) = (c', pg')" by simp
    note ih = Cons.IH [OF run]
    have e1: "expected_links (docs pg1 x) = expected_links (docs pg x)"
      if "href_count (docs pg1 x) = expected_links (docs pg x)"
      using that x1 by (intro expected_links_idem) simp_all
    have e2: "expected_links (docs pg1 x) = expected_links (docs pg x)"
      if "href_count (docs pg1 x) = href_count (docs pg x)"
      using that x1 by (simp add: expected_links_def)
    from ih x1 e1 e2 Returns s show ?thesis by auto
  qed
qed

lemma state_of_addNodes:
  "state_of (addNodes fmt ps pg) = snd (state_of (forEach (addNodes_doc fmt ps) (reachable pg) (0, pg)))"
  by (simp add: addNodes_def reachable_eq split: outcome.splits prod.splits)

text \<open>
  C6, as amended. In every reachable document that has a root element, when \<open>addNodes\<close>
  returns there is exactly one element with the stylesheet href if there was none before,
  and as many as before otherwise; a further \<open>addNodes\<close> call, whatever its parameters and
  outcome, does not change that number: no second link is inserted.
\<close>

theorem addNodes_stylesheet_once:
  assumes "addNodes fmt ps pg = Returns n pg'" and "h \<in> set (reachable pg)"
    and "documentElement (docs pg h) \<noteq> None"
  shows "href_count (docs pg' h) = (if href_count (docs pg h) = 0 then 1 else href_count (docs pg h)) \<and>
         href_count (docs (state_of (addNodes fmt' ps' pg')) h) = href_count (docs pg' h)"
proof -
  from assms(1) obtain u where
    run: "forEach (addNodes_doc fmt ps) (reachable pg) (0, pg) = Returns u (n, pg')"
    by (auto simp: addNodes_def reachable_eq split: outcome.splits)
  then have st: "state_of (forEach (addNodes_doc fmt ps) (reachable pg) (0, pg)) = (n, pg')" by simp
  from addNodes_docs_links [OF st, of h] run assms(2)
  have 1: "href_count (docs pg' h) = expected_links (docs pg h)"
    and r: "documentElement (docs pg' h) = None \<longleftrightarrow> documentElement (docs pg h) = None" by auto
  obtain c2 pg2 where
    st2: "state_of (forEach (addNodes_doc fmt' ps') (reachable pg') (0, pg')) = (c2, pg2)"
    by (cases "state_of (forEach (addNodes_doc fmt' ps') (reachable pg') (0, pg'))")
  from addNodes_docs_links [OF st2, of h] expected_links_idem [OF 1 r] 1
  have "href_count (docs pg2 h) = href_count (docs pg' h)" by auto
  with 1 assms(3) st2 show ?thesis by (simp add: state_of_addNodes expected_links_def)
qed

lemma blank_addNodes: "addNodes (\<lambda>i. i) example_params blank_page = Returns 0 blank_page"
  by (simp add: addNodes_def getAllDocuments_def addNodes_doc_def add_stylesheet_def
      addNodes_target_def example_defs dom_defs href_selector_def Let_def fun_upd_idem_iff)

text \<open>
  C6 as stated fails on a reachable document without a root element: it has no element with
  the stylesheet href, \<open>addNodes\<close> returns, and the document still has none.
\<close>

theorem addNodes_stylesheet_counterexample:
  "set (reachable blank_page) = {0} \<and> href_count (docs blank_page 0) = 0 \<and>
   addNodes (\<lambda>i. i) example_params blank_page = Returns 0 blank_page \<and>
   href_count (docs (state_of (addNodes (\<lambda>i. i) example_params blank_page)) 0) = 0"
  by (simp add: blank_addNodes)
     (simp add: reachable_def getAllDocuments_def href_count_def props_of_def example_defs dom_defs)

lemma example_addNodes_state:
  "addNodes (\<lambda>i. i) example_params example_page =
     Returns 2 (state_of (addNodes (\<lambda>i. i) example_params example_page))"
  using example_addNodes by (cases "addNodes (\<lambda>i. i) example_params example_page") auto

theorem addNodes_stylesheet_once_witness:
  "1 \<in> set (reachable example_page) \<and> documentElement (docs example_page 1) \<noteq> None \<and>
   href_count (docs example_page 1) = 0 \<and>
   href_count (docs (state_of (addNodes (\<lambda>i. i) example_params example_page)) 1) = 1"
proof -
  have 1: "1 \<in> set (reachable example_page)"
    by (simp add: reachable_def getAllDocuments_example)
  have 2: "documentElement (docs example_page 1) \<noteq> None" by (simp add: example_defs)
  have 3: "href_count (docs example_page 1) = 0"
    by (simp add: href_count_def props_of_def has_stylesheet_href_def example_defs dom_defs)
  from addNodes_stylesheet_once [OF example_addNodes_state 1 2, of "\<lambda>i. i" example_params] 1 2 3
  show ?thesis by simp
qed

subsection \<open>Exceptions are not caught\<close>

lemma forEach_throw_at:
  "forEach f xs s = Returns u s1 \<Longrightarrow> f x s1 = Throws e s2 \<Longrightarrow>
   forEach f (xs @ x # ys) s = Throws e s2"
  by (simp add: forEach_append)

text \<open>
  C5. Let the pass have reached target \<open>t\<close> of the reachable document \<open>h\<close>: the documents
  \<open>hs1\<close> before \<open>h\<close> and the targets \<open>ts1\<close> before \<open>t\<close> were processed without an exception. If
  now the selector of \<open>t\<close> is malformed, or, after the elements \<open>es1\<close> of \<open>t\<close> were processed, the
  next element is visible and \<open>getInfo\<close> throws (or is not a function), \<open>evalInfo\<close> throws, or the
  document has no body for the insertion, then \<open>addNodes\<close> throws that exception. The page is
  left as it was at that moment: the \<open>c2\<close> overlays inserted so far are all still in their
  documents.
\<close>

theorem addNodes_abort:
  assumes reach: "reachable pg = hs1 @ h # hs2"
    and before: "forEach (addNodes_doc fmt ps) hs1 (0, pg) = Returns () (c0, pg0)"
    and sheet: "add_stylesheet (docs pg0 h) = Inr d0"
    and tl: "targetList ps = ts1 @ t # ts2"
    and tbefore: "forEach (addNodes_target fmt ps) ts1 (c0, d0) = Returns () (c1, d1)"
    and trigger:
      "(selector t = Malformed \<and> err = SyntaxError \<and> c2 = c1 \<and> d2 = d1) \<or>
       (\<exists>els es1 element es2.
          querySelectorAll d1 (selector t) = Inr els \<and>
          (case filter_fn t of None \<Rightarrow> Inr els | Some f \<Rightarrow> Array_filter (f d1) els) =
            Inr (es1 @ element # es2) \<and>
          forEach (addNodes_element fmt ps t) es1 (c1, d1) = Returns () (c2, d2) \<and>
          isVisible d2 element = Inr True \<and>
          (case getInfo ps of
             None \<Rightarrow> err = TypeError
           | Some get \<Rightarrow>
               (case get d2 element t of
                  Inl e \<Rightarrow> err = e
                | Inr info0 \<Rightarrow>
                    (case (case evalInfo ps of None \<Rightarrow> Inr info0 | Some ev \<Rightarrow> ev info0 t) of
                       Inl e \<Rightarrow> err = e
                     | Inr info \<Rightarrow> body d2 = None \<and> err = TypeError))))"
  shows "addNodes fmt ps pg = Throws err (pg0\<lparr>docs := (docs pg0)(h := d2)\<rparr>) \<and>
         overlay_total (set (reachable pg)) (pg0\<lparr>docs := (docs pg0)(h := d2)\<rparr>) =
           overlay_total (set (reachable pg)) pg + c2"
proof -
  have target: "addNodes_target fmt ps t (c1, d1) = Throws err (c2, d2)"
    using trigger
  proof (elim disjE exE conjE)
    assume "selector t = Malformed" "err = SyntaxError" "c2 = c1" "d2 = d1"
    then show ?thesis by (simp add: addNodes_target_def querySelectorAll_def)
  next
    fix els es1 element es2
    assume q: "querySelectorAll d1 (selector t) = Inr els"
      and f: "(case filter_fn t of None \<Rightarrow> Inr els | Some f \<Rightarrow> Array_filter (f d1) els) =
            Inr (es1 @ element # es2)"
      and run: "forEach (addNodes_element fmt ps t) es1 (c1, d1) = Returns () (c2, d2)"
      and vis: "isVisible d2 element = Inr True"
      and cb: "(case getInfo ps of
             None \<Rightarrow> err = TypeError
           | Some get \<Rightarrow>
               (case get d2 element t of
                  Inl e \<Rightarrow> err = e
                | Inr info0 \<Rightarrow>
                    (case (case evalInfo ps of None \<Rightarrow> Inr info0 | Some ev \<Rightarrow> ev info0 t) of
                       Inl e \<Rightarrow> err = e
                     | Inr info \<Rightarrow> body d2 = None \<and> err = TypeError)))"
    have "addNodes_element fmt ps t element (c2, d2) = Throws err (c2, d2)"
      using vis cb
      by (auto simp: addNodes_element_def Let_def body_appendChild_def createOverlay_def
          addDragAndDrop_def set_label_title_def split: option.splits sum.splits)
    from forEach_throw_at [OF run this]
    show ?thesis by (simp add: addNodes_target_def q f)
  qed
  from forEach_throw_at [OF tbefore target]
  have "forEach (addNodes_target fmt ps) (targetList ps) (c0, d0) = Throws err (c2, d2)"
    by (simp add: tl)
  then have "addNodes_doc fmt ps h (c0, pg0) = Throws err (c2, pg0\<lparr>docs := (docs pg0)(h := d2)\<rparr>)"
    by (simp add: addNodes_doc_def sheet)
  from forEach_throw_at [OF before this]
  have run: "forEach (addNodes_doc fmt ps) (reachable pg) (0, pg) =
      Throws err (c2, pg0\<lparr>docs := (docs pg0)(h := d2)\<rparr>)"
    by (simp add: reach)
  then have "addNodes fmt ps pg = Throws err (pg0\<lparr>docs := (docs pg0)(h := d2)\<rparr>)"
    by (simp add: addNodes_def reachable_eq)
  moreover from addNodes_docs_overlays [of "set (reachable pg)" "reachable pg" fmt ps 0 pg] run
  have "overlay_total (set (reachable pg)) (pg0\<lparr>docs := (docs pg0)(h := d2)\<rparr>) =
           overlay_total (set (reachable pg)) pg + c2" by simp
  ultimately show ?thesis by simp
qed

text \<open>
  On the example page the paragraph of the main document gets its overlay, then \<open>getInfo\<close>
  throws in the iframe document: the exception leaves \<open>addNodes\<close> and the overlay stays.
\<close>

lemma throwing_first_document:
  "(case forEach (addNodes_doc (\<lambda>i. i) throwing_params) [0] (0, example_page) of
      Returns u s \<Rightarrow> fst s = 1 \<and> docs (snd s) 1 = frame_doc
    | Throws e s \<Rightarrow> False)"
  by code_simp

lemma throwing_second_document:
  "(case add_stylesheet frame_doc of
      Inl e \<Rightarrow> False
    | Inr d \<Rightarrow>
        querySelectorAll d (type_selector ''p'') = Inr [3] \<and> isVisible d 3 = Inr True)"
  by code_simp

theorem addNodes_abort_witness:
  "\<exists>pg'. addNodes (\<lambda>i. i) throwing_params example_page = Throws (Thrown ''getInfo failed'') pg' \<and>
     overlay_total (set (reachable example_page)) pg' =
       overlay_total (set (reachable example_page)) example_page + 1"
proof -
  let ?t = "\<lparr>selector = type_selector ''p'', filter_fn = None\<rparr>"
  from throwing_first_document obtain pg0 where
    before: "forEach (addNodes_doc (\<lambda>i. i) throwing_params) [0] (0, example_page) = Returns () (1, pg0)"
    and frame: "docs pg0 1 = frame_doc"
    by (cases "forEach (addNodes_doc (\<lambda>i. i) throwing_params) [0] (0, example_page)") auto
  from throwing_second_document obtain d0 where
    sheet0: "add_stylesheet frame_doc = Inr d0"
    and q: "querySelectorAll d0 (selector ?t) = Inr [3]" and vis: "isVisible d0 3 = Inr True"
    by (cases "add_stylesheet frame_doc") auto
  from sheet0 frame have sheet: "add_stylesheet (docs pg0 1) = Inr d0" by simp
  have reach: "reachable example_page = [0] @ 1 # []"
    by (simp add: reachable_def getAllDocuments_example)
  have tl: "targetList throwing_params = [] @ ?t # []" by (simp add: throwing_params_def)
  have tbefore: "forEach (addNodes_target (\<lambda>i. i) throwing_params) [] (1, d0) = Returns () (1, d0)"
    by simp
  have trigger: "(selector ?t = Malformed \<and> Thrown ''getInfo failed'' = SyntaxError \<and> 1 = 1 \<and> d0 = d0) \<or>
       (\<exists>els es1 element es2.
          querySelectorAll d0 (selector ?t) = Inr els \<and>
          (case filter_fn ?t of None \<Rightarrow> Inr els | Some f \<Rightarrow> Array_filter (f d0) els) =
            Inr (es1 @ element # es2) \<and>
          forEach (addNodes_element (\<lambda>i. i) throwing_params ?t) es1 (1, d0) = Returns () (1, d0) \<and>
          isVisible d0 element = Inr True \<and>
          (case getInfo throwing_params of
             None \<Rightarrow> Thrown ''getInfo failed'' = TypeError
           | Some get \<Rightarrow>
               (case get d0 element ?t of
                  Inl e \<Rightarrow> Thrown ''getInfo failed'' = e
                | Inr info0 \<Rightarrow>
                    (case (case evalInfo throwing_params of None \<Rightarrow> Inr info0 | Some ev \<Rightarrow> ev info0 ?t) of
                       Inl e \<Rightarrow> Thrown ''getInfo failed'' = e
                     | Inr info \<Rightarrow> body d0 = None \<and> Thrown ''getInfo failed'' = TypeError))))"
  proof -
    have "querySelectorAll d0 (selector ?t) = Inr [3] \<and>
          (case filter_fn ?t of None \<Rightarrow> Inr [3] | Some f \<Rightarrow> Array_filter (f d0) [3]) =
            Inr ([] @ 3 # []) \<and>
          forEach (addNodes_element (\<lambda>i. i) throwing_params ?t) [] (1, d0) = Returns () (1, d0) \<and>
          isVisible d0 3 = Inr True \<and>
          (case getInfo throwing_params of
             None \<Rightarrow> Thrown ''getInfo failed'' = TypeError
           | Some get \<Rightarrow>
               (case get d0 3 ?t of
                  Inl e \<Rightarrow> Thrown ''getInfo failed'' = e
                | Inr info0 \<Rightarrow>
                    (case (case evalInfo throwing_params of None \<Rightarrow> Inr info0 | Some ev \<Rightarrow> ev info0 ?t) of
                       Inl e \<Rightarrow> Thrown ''getInfo failed'' = e
                     | Inr info \<Rightarrow> body d0 = None \<and> Thrown ''getInfo failed'' = TypeError)))"
      using q vis by (simp add: throwing_params_def)
    then show ?thesis by blast
  qed
  from addNodes_abort [OF reach before sheet tl tbefore trigger] show ?thesis by blast
qed

subsection \<open>removeNodes after addNodes\<close>



text \<open>The steps of \<open>addNodes\<close> and \<open>removeNodes\<close> leave the mode of a document as it is.\<close>

lemma quirksMode_update_body [simp]: "quirksMode (update_body f d) = quirksMode d"
  by (simp add: update_body_def split: option.splits node.splits)

lemma quirksMode_add_overlays [simp]: "quirksMode (add_overlays d ovs) = quirksMode d"
  by (simp add: add_overlays_def)

























end
